theory Spec2Isabelle
  imports Main "HOL-Library.Multiset"
begin

section \<open>Python values and exceptions\<close>

text \<open>
  The values that travel through the modelled code are dynamically typed Python objects.
  Dictionaries are association lists in insertion order; a key occurs at most once in a
  dictionary that the model builds (see \<open>dict_set\<close>).
\<close>

datatype pyval =
    PNone
  | PBool bool
  | PInt int
  | PStr string
  | PTuple "pyval list"
  | PList "pyval list"
  | PDict "(string \<times> pyval) list"

text \<open>The exceptions raised by the modelled code, by class.\<close>

datatype error =
    TypeError
  | ValueError
  | KeyError
  | AttributeError
  | MKUserError "string option" string
  | OtherException string

type_synonym Row = "(string \<times> pyval) list"
type_synonym Rows = "Row list"

text \<open>\<open>d[k] = v\<close>: an existing key keeps its position, a new key is appended.\<close>

fun dict_set :: "'k \<Rightarrow> 'v \<Rightarrow> ('k \<times> 'v) list \<Rightarrow> ('k \<times> 'v) list" where
  "dict_set k v [] = [(k, v)]"
| "dict_set k v (p # ps) = (if fst p = k then (k, v) # ps else p # dict_set k v ps)"

text \<open>\<open>d[k]\<close> raises \<open>KeyError\<close> on a missing key; \<open>d.get(k)\<close> is \<open>map_of d k\<close>.\<close>

definition dict_item :: "('k \<times> 'v) list \<Rightarrow> 'k \<Rightarrow> error + 'v" where
  "dict_item d k = (case map_of d k of None \<Rightarrow> Inl KeyError | Some v \<Rightarrow> Inr v)"

definition startswith :: "string \<Rightarrow> string \<Rightarrow> bool" where
  "startswith s p = (take (length p) s = p)"

definition endswith :: "string \<Rightarrow> string \<Rightarrow> bool" where
  "endswith s p = (length p \<le> length s \<and> drop (length s - length p) s = p)"


section \<open>Row limit of a view query (views.py, get\_limit)\<close>

record config =
  soft_query_limit :: int
  hard_query_limit :: int

text \<open>
  \<open>request_var vars name default\<close> is \<open>html.request.var(name, default)\<close>;
  \<open>may\<close> is \<open>config.user.may\<close>.
\<close>

definition request_var :: "(string \<times> string) list \<Rightarrow> string \<Rightarrow> string \<Rightarrow> string" where
  "request_var vars name deflt = (case map_of vars name of None \<Rightarrow> deflt | Some v \<Rightarrow> v)"

definition get_limit :: "config \<Rightarrow> (string \<Rightarrow> bool) \<Rightarrow> (string \<times> string) list \<Rightarrow> int option" where
  "get_limit cfg may vars =
     (let limitvar = request_var vars ''limit'' ''soft'' in
      if limitvar = ''hard'' \<and> may ''general.ignore_soft_limit'' then Some (hard_query_limit cfg)
      else if limitvar = ''none'' \<and> may ''general.ignore_hard_limit'' then None
      else Some (soft_query_limit cfg))"


section \<open>OID specifications (type\_defs.py, OIDSpec)\<close>

text \<open>
  An \<open>OIDSpec\<close> object carries its class (the class itself or a subclass, which inherits
  the constructor) and the private attribute \<open>_value\<close>.
\<close>

record 'c OIDSpec =
  oid_class :: 'c
  oid_value :: string

definition VALID_CHARACTERS :: string where
  "VALID_CHARACTERS = ''.'' @ ''0123456789''"

definition validate :: "pyval \<Rightarrow> error + unit" where
  "validate v =
     (case v of
        PStr s \<Rightarrow>
          if s = [] then Inl ValueError
          else if filter (\<lambda>c. c \<notin> set VALID_CHARACTERS) s \<noteq> [] then Inl ValueError
          else if endswith s ''.'' then Inl ValueError
          else Inr ()
      | _ \<Rightarrow> Inl TypeError)"

text \<open>\<open>cls(value)\<close>: \<open>__init__\<close> validates and then stores the value.\<close>

definition OIDSpec_init :: "'c \<Rightarrow> pyval \<Rightarrow> error + 'c OIDSpec" where
  "OIDSpec_init cls v =
     (case validate v of
        Inl e \<Rightarrow> Inl e
      | Inr _ \<Rightarrow>
          (case v of
             PStr s \<Rightarrow> Inr \<lparr>oid_class = cls, oid_value = s\<rparr>
           | _ \<Rightarrow> Inl TypeError))"

text \<open>The right operand of \<open>+\<close> is any Python object: an \<open>OIDSpec\<close> instance or not.\<close>

datatype 'c operand = OID "'c OIDSpec" | NotOID pyval

definition oid_add :: "'c OIDSpec \<Rightarrow> 'c operand \<Rightarrow> error + 'c OIDSpec" where
  "oid_add self right =
     (case right of
        NotOID _ \<Rightarrow> Inl TypeError
      | OID r \<Rightarrow>
          if \<not> startswith (oid_value self) ''.'' \<or> startswith (oid_value r) ''.''
          then Inl ValueError
          else OIDSpec_init (oid_class r) (PStr (oid_value self @ ''.'' @ oid_value r)))"

text \<open>An object that the constructor has returned (for some class and argument).\<close>

definition constructed :: "'c OIDSpec \<Rightarrow> bool" where
  "constructed x = (OIDSpec_init (oid_class x) (PStr (oid_value x)) = Inr x)"

definition oid_chars_ok :: "string \<Rightarrow> bool" where
  "oid_chars_ok s = (s \<noteq> [] \<and> list_all (\<lambda>c. c \<in> set VALID_CHARACTERS) s \<and> last s \<noteq> CHR ''.'')"


section \<open>SNMP host configuration (type\_defs.py, SNMPHostConfig)\<close>

text \<open>
  A named tuple of fifteen fields. The annotations of the fields are not checked when the
  tuple is built, so a field holds any Python value.
\<close>

record SNMPHostConfig =
  is_ipv6_primary :: pyval
  hostname :: pyval
  ipaddress :: pyval
  credentials :: pyval
  port :: pyval
  is_bulkwalk_host :: pyval
  is_snmpv2or3_without_bulkwalk_host :: pyval
  bulk_walk_size_of :: pyval
  timing :: pyval
  oid_range_limits :: pyval
  snmpv3_contexts :: pyval
  character_encoding :: pyval
  is_usewalk_host :: pyval
  is_inline_snmp_host :: pyval
  record_stats :: pyval

definition SNMPHostConfig_fields :: "string list" where
  "SNMPHostConfig_fields =
     [''is_ipv6_primary'', ''hostname'', ''ipaddress'', ''credentials'', ''port'',
      ''is_bulkwalk_host'', ''is_snmpv2or3_without_bulkwalk_host'', ''bulk_walk_size_of'',
      ''timing'', ''oid_range_limits'', ''snmpv3_contexts'', ''character_encoding'',
      ''is_usewalk_host'', ''is_inline_snmp_host'', ''record_stats'']"

text \<open>\<open>self._asdict()\<close>: a new dictionary of the fields, in field order.\<close>

definition asdict :: "SNMPHostConfig \<Rightarrow> (string \<times> pyval) list" where
  "asdict c =
     [(''is_ipv6_primary'', is_ipv6_primary c), (''hostname'', hostname c),
      (''ipaddress'', ipaddress c), (''credentials'', credentials c), (''port'', port c),
      (''is_bulkwalk_host'', is_bulkwalk_host c),
      (''is_snmpv2or3_without_bulkwalk_host'', is_snmpv2or3_without_bulkwalk_host c),
      (''bulk_walk_size_of'', bulk_walk_size_of c), (''timing'', timing c),
      (''oid_range_limits'', oid_range_limits c), (''snmpv3_contexts'', snmpv3_contexts c),
      (''character_encoding'', character_encoding c), (''is_usewalk_host'', is_usewalk_host c),
      (''is_inline_snmp_host'', is_inline_snmp_host c), (''record_stats'', record_stats c)]"

text \<open>\<open>d.update(**kwargs)\<close>: the entries of \<open>kwargs\<close> are stored one after the other.\<close>

definition dict_update :: "('k \<times> 'v) list \<Rightarrow> ('k \<times> 'v) list \<Rightarrow> ('k \<times> 'v) list" where
  "dict_update d kwargs = fold (\<lambda>(k, v). dict_set k v) kwargs d"

text \<open>
  \<open>SNMPHostConfig(**cfg)\<close>: a keyword that is no field, or a field without a value, raises
  \<open>TypeError\<close>.
\<close>

definition SNMPHostConfig_new :: "(string \<times> pyval) list \<Rightarrow> error + SNMPHostConfig" where
  "SNMPHostConfig_new cfg =
     (if \<exists>k \<in> set (map fst cfg). k \<notin> set SNMPHostConfig_fields then Inl TypeError
      else
        (case those (map (map_of cfg) SNMPHostConfig_fields) of
           Some [a1, a2, a3, a4, a5, a6, a7, a8, a9, a10, a11, a12, a13, a14, a15] \<Rightarrow>
             Inr \<lparr>is_ipv6_primary = a1, hostname = a2, ipaddress = a3, credentials = a4,
                  port = a5, is_bulkwalk_host = a6, is_snmpv2or3_without_bulkwalk_host = a7,
                  bulk_walk_size_of = a8, timing = a9, oid_range_limits = a10,
                  snmpv3_contexts = a11, character_encoding = a12, is_usewalk_host = a13,
                  is_inline_snmp_host = a14, record_stats = a15\<rparr>
         | _ \<Rightarrow> Inl TypeError))"

definition update :: "SNMPHostConfig \<Rightarrow> (string \<times> pyval) list \<Rightarrow> error + SNMPHostConfig" where
  "update self kwargs =
     (let cfg = asdict self;
          cfg = dict_update cfg kwargs
      in SNMPHostConfig_new cfg)"

text \<open>\<open>getattr(c, name)\<close> for a field name.\<close>

definition getattr :: "SNMPHostConfig \<Rightarrow> string \<Rightarrow> pyval option" where
  "getattr c name = map_of (asdict c) name"


text \<open>A configuration used to evaluate \<open>update\<close> on a concrete input.\<close>

definition example_config :: SNMPHostConfig where
  "example_config =
     \<lparr>is_ipv6_primary = PBool False, hostname = PStr ''localhost'',
      ipaddress = PStr ''127.0.0.1'', credentials = PStr ''public'', port = PInt 161,
      is_bulkwalk_host = PBool False, is_snmpv2or3_without_bulkwalk_host = PBool False,
      bulk_walk_size_of = PInt 10, timing = PDict [], oid_range_limits = PList [],
      snmpv3_contexts = PList [], character_encoding = PNone, is_usewalk_host = PBool False,
      is_inline_snmp_host = PBool False, record_stats = PBool False\<rparr>"


section \<open>Livestatus filter headers (views.py, get\_livestatus\_filter\_headers)\<close>

text \<open>
  A filter is a plugin object. The model keeps the methods the view pipeline calls:
  \<open>value()\<close>, \<open>validate_value(value)\<close>, \<open>filter(infoname)\<close> and \<open>filter_table(rows)\<close>. The
  first three may raise.
\<close>

record Filter =
  filter_value :: "error + pyval"
  validate_value :: "pyval \<Rightarrow> error + unit"
  filter_hdr :: "string \<Rightarrow> error + string"
  filter_table :: "Rows \<Rightarrow> Rows"

text \<open>The body of the \<open>try\<close> block: validate the current value, then build the header.\<close>

definition filter_try :: "string \<Rightarrow> Filter \<Rightarrow> error + string" where
  "filter_try ident filt =
     (case filter_value filt of
        Inl e \<Rightarrow> Inl e
      | Inr v \<Rightarrow>
          (case validate_value filt v of
             Inl e \<Rightarrow> Inl e
           | Inr _ \<Rightarrow> filter_hdr filt ident))"

text \<open>
  The loop over the active filters. The state is the header string built so far and the
  user errors recorded by \<open>html.add_user_error\<close>. Only \<open>MKUserError\<close> is caught.
\<close>

fun filter_headers_loop ::
  "string \<Rightarrow> Filter list \<Rightarrow> string \<Rightarrow> (string option \<times> string) list \<Rightarrow>
     error + (string \<times> (string option \<times> string) list)" where
  "filter_headers_loop ident [] filterheaders user_errors = Inr (filterheaders, user_errors)"
| "filter_headers_loop ident (filt # filts) filterheaders user_errors =
     (case filter_try ident filt of
        Inr header \<Rightarrow> filter_headers_loop ident filts (filterheaders @ header) user_errors
      | Inl (MKUserError varname msg) \<Rightarrow>
          filter_headers_loop ident filts filterheaders (user_errors @ [(varname, msg)])
      | Inl e \<Rightarrow> Inl e)"

definition get_livestatus_filter_headers ::
  "string \<Rightarrow> Filter list \<Rightarrow> error + (string \<times> (string option \<times> string) list)" where
  "get_livestatus_filter_headers ident all_active_filters =
     filter_headers_loop ident all_active_filters [] []"

text \<open>\<open>headers = filterheaders + view.spec.get("add_headers", "")\<close> in \<open>show_view\<close>.\<close>

definition query_headers :: "(string \<times> pyval) list \<Rightarrow> string \<Rightarrow> error + string" where
  "query_headers spec filterheaders =
     (case map_of spec ''add_headers'' of
        None \<Rightarrow> Inr (filterheaders @ [])
      | Some (PStr s) \<Rightarrow> Inr (filterheaders @ s)
      | Some _ \<Rightarrow> Inl TypeError)"

text \<open>
  The contribution of one filter to the header string: the output of \<open>filter()\<close> when the current
  value passes \<open>validate_value\<close>, and nothing when validation or header generation raises.
\<close>

definition header_contribution :: "string \<Rightarrow> Filter \<Rightarrow> string" where
  "header_contribution ident filt =
     (case filter_value filt of
        Inl _ \<Rightarrow> []
      | Inr v \<Rightarrow>
          (case validate_value filt v of
             Inl _ \<Rightarrow> []
           | Inr _ \<Rightarrow> (case filter_hdr filt ident of Inl _ \<Rightarrow> [] | Inr h \<Rightarrow> h)))"

definition is_user_error :: "error \<Rightarrow> bool" where
  "is_user_error e = (case e of MKUserError _ _ \<Rightarrow> True | _ \<Rightarrow> False)"

text \<open>A filter that either succeeds or raises \<open>MKUserError\<close>.\<close>

definition raises_at_most_user_error :: "string \<Rightarrow> Filter \<Rightarrow> bool" where
  "raises_at_most_user_error ident filt =
     (case filter_try ident filt of Inl e \<Rightarrow> is_user_error e | Inr _ \<Rightarrow> True)"

text \<open>Two filters used to evaluate the header construction on a concrete input.\<close>

definition example_filter_ok :: Filter where
  "example_filter_ok =
     \<lparr>filter_value = Inr (PStr ''web''), validate_value = (\<lambda>_. Inr ()),
      filter_hdr = (\<lambda>_. Inr ''Filter: host_name ~ web\<newline>''), filter_table = (\<lambda>rows. rows)\<rparr>"

definition example_filter_invalid :: Filter where
  "example_filter_invalid =
     \<lparr>filter_value = Inr (PStr ''(''),
      validate_value = (\<lambda>_. Inl (MKUserError (Some ''regex'') ''invalid regular expression'')),
      filter_hdr = (\<lambda>_. Inr ''Filter: description ~ (\<newline>''), filter_table = (\<lambda>rows. rows)\<rparr>"


section \<open>Logfile pattern editor (pattern\_editor.py, ModePatternEditor.\_show\_patterns)\<close>

text \<open>
  A logwatch rule holds a list of patterns \<open>(state, pattern, comment)\<close>, either directly or
  under the key "reclassify\_patterns" of a dictionary, and decides whether it applies to a
  host, an item and a service description.
\<close>

type_synonym LogPattern = "string \<times> string \<times> string"

datatype rule_value =
    PatternList "LogPattern list"
  | PatternDict "(string \<times> LogPattern list) list"

record Rule =
  rule_value :: rule_value
  matches_host_and_item :: "string \<Rightarrow> string \<Rightarrow> string \<Rightarrow> bool"

text \<open>
  The mode object with what it calls: \<open>self._hostname\<close>, \<open>self._item\<close>, \<open>self._match_txt\<close>,
  the rules of \<open>ruleset.get_rules()\<close> in order, the automation call behind
  \<open>_get_service_description\<close> and \<open>re.search\<close>, which returns the span of the match or
  \<open>None\<close>, or raises on a pattern that does not compile.
\<close>

record ModePatternEditor =
  self_hostname :: string
  self_item :: string
  self_match_txt :: string
  get_rules :: "Rule list"
  get_service_description :: "string \<Rightarrow> string \<Rightarrow> string \<Rightarrow> error + string"
  re_search :: "string \<Rightarrow> string \<Rightarrow> error + (nat \<times> nat) option"

text \<open>One table row per pattern: the values the loop body computes for it.\<close>

record PatternRow =
  reason_class :: string
  match_class :: string
  match_img :: string
  disp_match_txt :: "(string \<times> string \<times> string) option"

text \<open>\<open>pattern_list = rule.value\<close>, unwrapped when it is a dictionary.\<close>

definition rule_pattern_list :: "Rule \<Rightarrow> error + LogPattern list" where
  "rule_pattern_list rule =
     (case rule_value rule of
        PatternList ps \<Rightarrow> Inr ps
      | PatternDict d \<Rightarrow> dict_item d ''reclassify_patterns'')"

text \<open>
  The inner loop over the patterns of one rule. The flag \<open>already_matched\<close> is threaded
  through and returned.
\<close>

fun show_pattern_rows ::
  "ModePatternEditor \<Rightarrow> bool \<Rightarrow> LogPattern list \<Rightarrow> bool \<Rightarrow> error + (PatternRow list \<times> bool)" where
  "show_pattern_rows self rule_matches [] already_matched = Inr ([], already_matched)"
| "show_pattern_rows self rule_matches ((state, pattern, comment) # rest) already_matched =
     (if rule_matches then
        (case re_search self pattern (self_match_txt self) of
           Inl e \<Rightarrow> Inl e
         | Inr (Some (match_start, match_end)) \<Rightarrow>
             (let disp = Some (take match_start (self_match_txt self),
                               drop match_start (take match_end (self_match_txt self)),
                               drop match_end (self_match_txt self));
                  row = (if \<not> already_matched
                         then \<lparr>reason_class = ''reason'', match_class = ''match first'',
                               match_img = ''match'', disp_match_txt = disp\<rparr>
                         else \<lparr>reason_class = ''reason'', match_class = ''match'',
                               match_img = ''imatch'', disp_match_txt = disp\<rparr>)
              in (case show_pattern_rows self rule_matches rest True of
                    Inl e \<Rightarrow> Inl e
                  | Inr (rows, am) \<Rightarrow> Inr (row # rows, am)))
         | Inr None \<Rightarrow>
             (case show_pattern_rows self rule_matches rest already_matched of
                Inl e \<Rightarrow> Inl e
              | Inr (rows, am) \<Rightarrow>
                  Inr (\<lparr>reason_class = ''reason'', match_class = [],
                        match_img = ''nmatch'', disp_match_txt = None\<rparr> # rows, am)))
      else
        (case show_pattern_rows self rule_matches rest already_matched of
           Inl e \<Rightarrow> Inl e
         | Inr (rows, am) \<Rightarrow>
             Inr (\<lparr>reason_class = ''noreason'', match_class = [],
                   match_img = ''nmatch'', disp_match_txt = None\<rparr> # rows, am)))"

text \<open>Whether a rule applies: every rule does when no host name is given.\<close>

definition rule_applies :: "ModePatternEditor \<Rightarrow> Rule \<Rightarrow> error + bool" where
  "rule_applies self rule =
     (if self_hostname self \<noteq> [] then
        (case get_service_description self (self_hostname self) ''logwatch'' (self_item self) of
           Inl e \<Rightarrow> Inl e
         | Inr service_desc \<Rightarrow>
             Inr (matches_host_and_item rule (self_hostname self) (self_item self) service_desc))
      else Inr True)"

text \<open>The outer loop over the rules: one table of rows per rule.\<close>

fun show_rules ::
  "ModePatternEditor \<Rightarrow> Rule list \<Rightarrow> bool \<Rightarrow> error + PatternRow list list" where
  "show_rules self [] already_matched = Inr []"
| "show_rules self (rule # rules) already_matched =
     (case rule_applies self rule of
        Inl e \<Rightarrow> Inl e
      | Inr rule_matches \<Rightarrow>
          (case rule_pattern_list rule of
             Inl e \<Rightarrow> Inl e
           | Inr pattern_list \<Rightarrow>
               (case show_pattern_rows self rule_matches pattern_list already_matched of
                  Inl e \<Rightarrow> Inl e
                | Inr (rows, am) \<Rightarrow>
                    (case show_rules self rules am of
                       Inl e \<Rightarrow> Inl e
                     | Inr tables \<Rightarrow> Inr (rows # tables)))))"

definition show_patterns :: "ModePatternEditor \<Rightarrow> error + PatternRow list list" where
  "show_patterns self = show_rules self (get_rules self) False"

text \<open>
  The patterns in display order, each with the answer to: does its rule apply and does
  its regular expression match the text?
\<close>

definition pattern_hit :: "ModePatternEditor \<Rightarrow> bool \<Rightarrow> LogPattern \<Rightarrow> bool" where
  "pattern_hit self rule_matches p =
     (rule_matches \<and>
      (case re_search self (fst (snd p)) (self_match_txt self) of
         Inr (Some _) \<Rightarrow> True
       | _ \<Rightarrow> False))"

definition rule_hits :: "ModePatternEditor \<Rightarrow> Rule \<Rightarrow> bool list" where
  "rule_hits self rule =
     (case (rule_applies self rule, rule_pattern_list rule) of
        (Inr rule_matches, Inr ps) \<Rightarrow> map (pattern_hit self rule_matches) ps
      | _ \<Rightarrow> [])"

definition pattern_hits :: "ModePatternEditor \<Rightarrow> bool list" where
  "pattern_hits self = concat (map (rule_hits self) (get_rules self))"

text \<open>The expected marking of a row, by its position in the display order.\<close>

definition expected_class :: "bool list \<Rightarrow> nat \<Rightarrow> string" where
  "expected_class hits i =
     (if hits ! i then (if True \<in> set (take i hits) then ''match'' else ''match first'') else [])"

definition expected_img :: "bool list \<Rightarrow> nat \<Rightarrow> string" where
  "expected_img hits i =
     (if hits ! i then (if True \<in> set (take i hits) then ''imatch'' else ''match'') else ''nmatch'')"


text \<open>
  The marking of a list of hits from left to right, given whether a hit came before:
  the pair of \<open>match_class\<close> and \<open>match_img\<close> per position.
\<close>

fun mark_rows :: "bool \<Rightarrow> bool list \<Rightarrow> (string \<times> string) list" where
  "mark_rows am [] = []"
| "mark_rows am (h # hs) =
     (if h then (if am then (''match'', ''imatch'') else (''match first'', ''match'')) # mark_rows True hs
      else ([], ''nmatch'') # mark_rows am hs)"

text \<open>A mode object used to evaluate the marking on a concrete ruleset.\<close>

definition example_mode :: ModePatternEditor where
  "example_mode =
     \<lparr>self_hostname = ''srv1'', self_item = ''/var/log/messages'', self_match_txt = ''disk error'',
      get_rules =
        [\<lparr>rule_value = PatternList [(''C'', ''error'', ''other host'')],
          matches_host_and_item = (\<lambda>h i d. False)\<rparr>,
         \<lparr>rule_value = PatternDict [(''reclassify_patterns'',
             [(''W'', ''warn'', ''''), (''C'', ''error'', ''''), (''O'', ''disk'', '''')])],
          matches_host_and_item = (\<lambda>h i d. h = ''srv1'')\<rparr>],
      get_service_description = (\<lambda>h c i. Inr (''LOG '' @ i)),
      re_search = (\<lambda>p t. if p = ''error'' then Inr (Some (5, 10))
                           else if p = ''disk'' then Inr (Some (0, 4)) else Inr None)\<rparr>"


section \<open>Commands on rows (views.py, core\_command and do\_actions)\<close>

text \<open>\<open>row.get(key)\<close>: the value of the column, \<open>None\<close> when the row has no such column.\<close>

definition row_get :: "Row \<Rightarrow> string \<Rightarrow> pyval" where
  "row_get row key = (case map_of row key of None \<Rightarrow> PNone | Some v \<Rightarrow> v)"

text \<open>The truth value of a Python object.\<close>

fun truthy :: "pyval \<Rightarrow> bool" where
  "truthy PNone = False"
| "truthy (PBool b) = b"
| "truthy (PInt i) = (i \<noteq> 0)"
| "truthy (PStr s) = (s \<noteq> [])"
| "truthy (PTuple xs) = (xs \<noteq> [])"
| "truthy (PList xs) = (xs \<noteq> [])"
| "truthy (PDict d) = (d \<noteq> [])"

text \<open>
  A core command is a command line, or a pair of a site and a command line (commands on BI
  aggregations name their site). A command action returns one command or a list of them.
\<close>

datatype command_entry = Plain string | WithSite pyval string

datatype commands = CommandList "command_entry list" | SingleCommand command_entry

text \<open>
  A registered command: the name of its permission, its \<open>action\<close>, which returns nothing
  when the command was not selected, and its executor, which the model names.
\<close>

record Command =
  permission_name :: string
  action :: "string \<Rightarrow> pyval \<Rightarrow> Row \<Rightarrow> nat \<Rightarrow> nat \<Rightarrow> error + (commands \<times> string option) option"
  executor :: string

text \<open>
  What the two functions read from their surroundings: \<open>config.user.may\<close>, the values of the
  command registry in order, \<open>str\<close> on a column value and the answer of \<open>html.confirm\<close> for
  a title and a number of rows.
\<close>

record actions_env =
  user_may :: "string \<Rightarrow> bool"
  command_registry :: "Command list"
  str_of :: "pyval \<Rightarrow> string"
  html_confirm :: "string option \<Rightarrow> nat \<Rightarrow> bool"

text \<open>
  The loop over the registry: the first permitted command whose action returns a result
  ends the loop.
\<close>

fun find_command ::
  "actions_env \<Rightarrow> Command list \<Rightarrow> string \<Rightarrow> pyval \<Rightarrow> Row \<Rightarrow> nat \<Rightarrow> nat \<Rightarrow>
     error + (commands \<times> string option \<times> string) option" where
  "find_command env [] cmdtag spec row row_nr total_rows = Inr None"
| "find_command env (cmd # cmds) cmdtag spec row row_nr total_rows =
     (if user_may env (permission_name cmd) then
        (case action cmd cmdtag spec row row_nr total_rows of
           Inl e \<Rightarrow> Inl e
         | Inr (Some (commands, title)) \<Rightarrow> Inr (Some (commands, title, executor cmd))
         | Inr None \<Rightarrow> find_command env cmds cmdtag spec row row_nr total_rows)
      else find_command env cmds cmdtag spec row row_nr total_rows)"

definition core_command ::
  "actions_env \<Rightarrow> string \<Rightarrow> Row \<Rightarrow> nat \<Rightarrow> nat \<Rightarrow>
     error + (command_entry list \<times> string option \<times> string)" where
  "core_command env what row row_nr total_rows =
     (let host = row_get row ''host_name'';
          descr = row_get row ''service_description'';
          (spec, cmdtag) =
            (if what = ''host'' then (host, ''HOST'')
             else if what = ''service''
               then (PStr (str_of env host @ '';'' @ str_of env descr), ''SVC'')
             else (row_get row (what @ ''_id''), if truthy descr then ''SVC'' else ''HOST''))
      in case find_command env (command_registry env) cmdtag spec row row_nr total_rows of
           Inl e \<Rightarrow> Inl e
         | Inr None \<Rightarrow> Inl (MKUserError None ''Sorry. This command is not implemented.'')
         | Inr (Some (commands, title, exec)) \<Rightarrow>
             if title = None \<or> title = Some []
             then Inl (MKUserError None ''Sorry. This command is not implemented.'')
             else Inr (case commands of CommandList cs \<Rightarrow> cs | SingleCommand c \<Rightarrow> [c],
                       title, exec))"

text \<open>
  The state of the loops of \<open>do_actions\<close>: the calls of executors so far, each with the
  executor, the command and the site, and the set \<open>already_executed\<close>.
\<close>

record actions_state =
  calls :: "(string \<times> string \<times> pyval) list"
  already_executed :: "(pyval \<times> command_entry) set"

text \<open>
  The inner loop over the commands of one row. The variable \<open>site\<close> is the site of the row
  when the entry is looked up; for an entry with a site of its own it is overwritten
  before the call and before the entry is added to \<open>already_executed\<close>.
\<close>

fun execute_entries ::
  "string \<Rightarrow> Row \<Rightarrow> command_entry list \<Rightarrow> actions_state \<Rightarrow> actions_state" where
  "execute_entries exec row [] st = st"
| "execute_entries exec row (command_entry # rest) st =
     (let site = row_get row ''site'' in
      if (site, command_entry) \<notin> already_executed st then
        (let (site, command) =
               (case command_entry of WithSite s c \<Rightarrow> (s, c) | Plain c \<Rightarrow> (site, c))
         in execute_entries exec row rest
              \<lparr>calls = calls st @ [(exec, command, site)],
               already_executed = insert (site, command_entry) (already_executed st)\<rparr>)
      else execute_entries exec row rest st)"

text \<open>
  The outer loop over \<open>enumerate(action_rows)\<close>. An exception of \<open>core_command\<close> ends it;
  the calls made for earlier rows have happened.
\<close>

fun execute_rows ::
  "actions_env \<Rightarrow> string \<Rightarrow> nat \<Rightarrow> (nat \<times> Row) list \<Rightarrow> actions_state \<Rightarrow>
     actions_state \<times> error option" where
  "execute_rows env what total_rows [] st = (st, None)"
| "execute_rows env what total_rows ((nr, row) # rest) st =
     (case core_command env what row nr total_rows of
        Inl e \<Rightarrow> (st, Some e)
      | Inr (core_commands, title, exec) \<Rightarrow>
          execute_rows env what total_rows rest (execute_entries exec row core_commands st))"

text \<open>
  \<open>do_actions\<close>: the calls of executors it has made and what it returns or raises. The
  messages it shows are left out.
\<close>

definition do_actions ::
  "actions_env \<Rightarrow> string \<Rightarrow> Rows \<Rightarrow> (string \<times> string \<times> pyval) list \<times> (error + bool)" where
  "do_actions env what action_rows =
     (if \<not> user_may env ''general.act'' then ([], Inr False)
      else if action_rows = [] then ([], Inr False)
      else
        (case core_command env what (hd action_rows) 0 (length action_rows) of
           Inl e \<Rightarrow> ([], Inl e)
         | Inr (_, title, exec) \<Rightarrow>
             if \<not> html_confirm env title (length action_rows) then ([], Inr False)
             else
               (case execute_rows env what (length action_rows)
                       (zip [0..<length action_rows] action_rows)
                       \<lparr>calls = [], already_executed = {}\<rparr> of
                  (st, Some e) \<Rightarrow> (calls st, Inl e)
                | (st, None) \<Rightarrow> (calls st, Inr True))))"

text \<open>
  The pairs of a row's site and a command that \<open>core_command\<close> produces for the rows, in
  order, and whether it succeeds on every row with commands without a site of their own.
\<close>

fun produced_pairs ::
  "actions_env \<Rightarrow> string \<Rightarrow> nat \<Rightarrow> (nat \<times> Row) list \<Rightarrow> (pyval \<times> command_entry) list" where
  "produced_pairs env what total_rows [] = []"
| "produced_pairs env what total_rows ((nr, row) # rest) =
     (case core_command env what row nr total_rows of
        Inl e \<Rightarrow> []
      | Inr (core_commands, title, exec) \<Rightarrow>
          map (\<lambda>c. (row_get row ''site'', c)) core_commands)
     @ produced_pairs env what total_rows rest"

definition is_plain :: "command_entry \<Rightarrow> bool" where
  "is_plain c = (case c of Plain _ \<Rightarrow> True | WithSite _ _ \<Rightarrow> False)"

fun all_rows_plain :: "actions_env \<Rightarrow> string \<Rightarrow> nat \<Rightarrow> (nat \<times> Row) list \<Rightarrow> bool" where
  "all_rows_plain env what total_rows [] = True"
| "all_rows_plain env what total_rows ((nr, row) # rest) =
     ((case core_command env what row nr total_rows of
         Inl e \<Rightarrow> False
       | Inr (core_commands, title, exec) \<Rightarrow> list_all is_plain core_commands)
      \<and> all_rows_plain env what total_rows rest)"

text \<open>The site and the command entry of a call of an executor with a plain command.\<close>

definition call_pair :: "string \<times> string \<times> pyval \<Rightarrow> pyval \<times> command_entry" where
  "call_pair c = (snd (snd c), Plain (fst (snd c)))"


text \<open>
  Environments used to evaluate \<open>do_actions\<close> on concrete rows: a command that applies to
  services only, and a command on BI aggregations that names the site of each command.
\<close>

definition example_service_command :: Command where
  "example_service_command =
     \<lparr>permission_name = ''action.acknowledge'',
      action = (\<lambda>cmdtag spec row row_nr total_rows.
        if cmdtag = ''SVC''
        then Inr (Some (SingleCommand (Plain (''REMOVE_SVC_COMMENT;'' @
               (case spec of PStr s \<Rightarrow> s | _ \<Rightarrow> []))), Some ''remove''))
        else Inr None),
      executor = ''command_executor_livestatus''\<rparr>"

definition example_bi_command :: Command where
  "example_bi_command =
     \<lparr>permission_name = ''action.acknowledge'',
      action = (\<lambda>cmdtag spec row row_nr total_rows.
        Inr (Some (CommandList [WithSite (PStr ''s1'') ''ACKNOWLEDGE_HOST_PROBLEM;h1''],
                   Some ''acknowledge''))),
      executor = ''command_executor_livestatus''\<rparr>"

definition example_actions_env :: "Command \<Rightarrow> actions_env" where
  "example_actions_env cmd =
     \<lparr>user_may = (\<lambda>p. True), command_registry = [cmd],
      str_of = (\<lambda>v. case v of PStr s \<Rightarrow> s | _ \<Rightarrow> ''None''),
      html_confirm = (\<lambda>title n. True)\<rparr>"

definition service_comment_row :: "string \<Rightarrow> Row" where
  "service_comment_row comment_id =
     [(''site'', PStr ''s1''), (''host_name'', PStr ''h1''),
      (''service_description'', PStr ''CPU load''), (''comment_id'', PStr comment_id)]"

definition host_comment_row :: "string \<Rightarrow> Row" where
  "host_comment_row comment_id =
     [(''site'', PStr ''s1''), (''host_name'', PStr ''h1''), (''comment_id'', PStr comment_id)]"


section \<open>Sorting rows (views.py, \_sort\_data)\<close>

text \<open>
  A sorter entry: the comparison function of the sorter plugin, the negate flag and the
  join key. The comparison function receives two rows, or two joined rows, as Python
  objects and returns an integer.
\<close>

record SorterEntry =
  sorter_cmp :: "pyval \<Rightarrow> pyval \<Rightarrow> int"
  negate :: bool
  join_key :: "string option"

text \<open>\<open>if entry.join_key\<close>: the key is neither \<open>None\<close> nor empty.\<close>

definition is_join_entry :: "SorterEntry \<Rightarrow> bool" where
  "is_join_entry entry = (case join_key entry of None \<Rightarrow> False | Some k \<Rightarrow> k \<noteq> [])"

definition entry_join_key :: "SorterEntry \<Rightarrow> string" where
  "entry_join_key entry = (case join_key entry of None \<Rightarrow> [] | Some k \<Rightarrow> k)"

text \<open>Handle the case where join columns are not present for all rows.\<close>

definition safe_compare :: "(pyval \<Rightarrow> pyval \<Rightarrow> int) \<Rightarrow> pyval \<Rightarrow> pyval \<Rightarrow> int" where
  "safe_compare compfunc row1 row2 =
     (if row1 = PNone \<and> row2 = PNone then 0
      else if row1 = PNone then - 1
      else if row2 = PNone then 1
      else compfunc row1 row2)"

text \<open>
  \<open>e["JOIN"].get(key)\<close>: \<open>KeyError\<close> when the row has no "JOIN" column, \<open>AttributeError\<close>
  when that column is no dictionary, \<open>None\<close> when the dictionary lacks the key.
\<close>

definition join_get :: "Row \<Rightarrow> string \<Rightarrow> error + pyval" where
  "join_get e key =
     (case map_of e ''JOIN'' of
        None \<Rightarrow> Inl KeyError
      | Some (PDict d) \<Rightarrow> Inr (case map_of d key of None \<Rightarrow> PNone | Some r \<Rightarrow> r)
      | Some _ \<Rightarrow> Inl AttributeError)"

text \<open>The value \<open>c\<close> of one round of the loop in \<open>multisort\<close>.\<close>

definition entry_compare :: "SorterEntry \<Rightarrow> Row \<Rightarrow> Row \<Rightarrow> error + int" where
  "entry_compare entry e1 e2 =
     (let neg = (if negate entry then - 1 else 1) in
      if is_join_entry entry then
        (case join_get e1 (entry_join_key entry) of
           Inl err \<Rightarrow> Inl err
         | Inr row1 \<Rightarrow>
             (case join_get e2 (entry_join_key entry) of
                Inl err \<Rightarrow> Inl err
              | Inr row2 \<Rightarrow> Inr (neg * safe_compare (sorter_cmp entry) row1 row2)))
      else Inr (neg * sorter_cmp entry (PDict e1) (PDict e2)))"

fun multisort :: "SorterEntry list \<Rightarrow> Row \<Rightarrow> Row \<Rightarrow> error + int" where
  "multisort [] e1 e2 = Inr 0"
| "multisort (entry # sorters) e1 e2 =
     (case entry_compare entry e1 e2 of
        Inl err \<Rightarrow> Inl err
      | Inr c \<Rightarrow> if c \<noteq> 0 then Inr c else multisort sorters e1 e2)"

text \<open>
  \<open>data.sort(key=functools.cmp_to_key(f))\<close>. The sort of the Python library is stable and
  compares two keys with "less than" only, which \<open>cmp_to_key\<close> defines as \<open>f(a, b) < 0\<close>. It is
  modelled as an insertion sort from the right with these two properties; an exception of
  a comparison ends the sort. The library does not fix which pairs are compared, so the
  model agrees with it on whether an exception occurs only when every comparison
  succeeds or every comparison fails.
\<close>

fun insort_cmp :: "('a \<Rightarrow> 'a \<Rightarrow> error + int) \<Rightarrow> 'a \<Rightarrow> 'a list \<Rightarrow> error + 'a list" where
  "insort_cmp f x [] = Inr [x]"
| "insort_cmp f x (y # ys) =
     (case f y x of
        Inl err \<Rightarrow> Inl err
      | Inr c \<Rightarrow>
          if c < 0 then (case insort_cmp f x ys of Inl err \<Rightarrow> Inl err | Inr zs \<Rightarrow> Inr (y # zs))
          else Inr (x # y # ys))"

fun sort_cmp :: "('a \<Rightarrow> 'a \<Rightarrow> error + int) \<Rightarrow> 'a list \<Rightarrow> error + 'a list" where
  "sort_cmp f [] = Inr []"
| "sort_cmp f (x # xs) =
     (case sort_cmp f xs of Inl err \<Rightarrow> Inl err | Inr ys \<Rightarrow> insort_cmp f x ys)"

definition sort_data :: "SorterEntry list \<Rightarrow> Rows \<Rightarrow> error + Rows" where
  "sort_data sorters data =
     (if sorters = [] then Inr data else sort_cmp (multisort sorters) data)"

text \<open>
  The lexicographic comparison of two rows. The result of one entry, with \<open>None\<close> for a joined
  row that cannot be read; the first result that is not zero decides, and zero is
  returned when there is none.
\<close>

definition joined_row :: "Row \<Rightarrow> string \<Rightarrow> pyval" where
  "joined_row e key = (case join_get e key of Inl _ \<Rightarrow> PNone | Inr r \<Rightarrow> r)"

definition entry_result :: "SorterEntry \<Rightarrow> Row \<Rightarrow> Row \<Rightarrow> int" where
  "entry_result entry e1 e2 =
     (if negate entry then - 1 else 1) *
     (if is_join_entry entry
      then safe_compare (sorter_cmp entry)
             (joined_row e1 (entry_join_key entry)) (joined_row e2 (entry_join_key entry))
      else sorter_cmp entry (PDict e1) (PDict e2))"

definition first_nonzero :: "int list \<Rightarrow> int" where
  "first_nonzero cs = (case filter (\<lambda>c. c \<noteq> 0) cs of [] \<Rightarrow> 0 | c # _ \<Rightarrow> c)"

definition lex_compare :: "SorterEntry list \<Rightarrow> Row \<Rightarrow> Row \<Rightarrow> int" where
  "lex_compare sorters e1 e2 = first_nonzero (map (\<lambda>entry. entry_result entry e1 e2) sorters)"

text \<open>A row whose "JOIN" column is a dictionary.\<close>

definition has_join :: "Row \<Rightarrow> bool" where
  "has_join e = (case map_of e ''JOIN'' of Some (PDict d) \<Rightarrow> True | _ \<Rightarrow> False)"

text \<open>
  The comparison is consistent on a list of rows: swapping the arguments swaps the sign,
  and "not after" is transitive.
\<close>

definition consistent_on :: "('a \<Rightarrow> 'a \<Rightarrow> int) \<Rightarrow> 'a list \<Rightarrow> bool" where
  "consistent_on g xs =
     ((\<forall>a \<in> set xs. \<forall>b \<in> set xs. (g a b < 0) = (0 < g b a)) \<and>
      (\<forall>a \<in> set xs. \<forall>b \<in> set xs. \<forall>c \<in> set xs. g a b \<le> 0 \<and> g b c \<le> 0 \<longrightarrow> g a c \<le> 0))"

text \<open>The insertion sort for a comparison that cannot fail.\<close>

fun insort_int :: "('a \<Rightarrow> 'a \<Rightarrow> int) \<Rightarrow> 'a \<Rightarrow> 'a list \<Rightarrow> 'a list" where
  "insort_int g x [] = [x]"
| "insort_int g x (y # ys) = (if g y x < 0 then y # insort_int g x ys else x # y # ys)"

fun sort_int :: "('a \<Rightarrow> 'a \<Rightarrow> int) \<Rightarrow> 'a list \<Rightarrow> 'a list" where
  "sort_int g [] = []"
| "sort_int g (x # xs) = insort_int g x (sort_int g xs)"


text \<open>
  Sorters and rows used to evaluate the sort on a concrete input: a comparison of an
  integer column in the manner of the sorter plugins, a negated sorter on the column
  "state", a sorter on the column "svc" of the joined row "CPU", and four host rows.
\<close>

definition cmp_num_column :: "string \<Rightarrow> pyval \<Rightarrow> pyval \<Rightarrow> int" where
  "cmp_num_column column r1 r2 =
     (case (r1, r2) of
        (PDict a, PDict b) \<Rightarrow>
          (case (map_of a column, map_of b column) of
             (Some (PInt x), Some (PInt y)) \<Rightarrow> (if x < y then - 1 else if y < x then 1 else 0)
           | _ \<Rightarrow> 0)
      | _ \<Rightarrow> 0)"

definition example_sorters :: "SorterEntry list" where
  "example_sorters =
     [\<lparr>sorter_cmp = cmp_num_column ''state'', negate = True, join_key = None\<rparr>,
      \<lparr>sorter_cmp = cmp_num_column ''svc'', negate = False, join_key = Some ''CPU''\<rparr>]"

definition example_host_row :: "string \<Rightarrow> int \<Rightarrow> (string \<times> pyval) list \<Rightarrow> Row" where
  "example_host_row name state joined =
     [(''site'', PStr ''s1''), (''host_name'', PStr name), (''state'', PInt state),
      (''JOIN'', PDict joined)]"

definition example_data :: Rows where
  "example_data =
     [example_host_row ''a'' 0 [(''CPU'', PDict [(''svc'', PInt 2)])],
      example_host_row ''c'' 0 [],
      example_host_row ''b'' 1 [],
      example_host_row ''d'' 0 []]"

definition example_unjoined_data :: Rows where
  "example_unjoined_data =
     [[(''site'', PStr ''s1''), (''host_name'', PStr ''a'')],
      [(''site'', PStr ''s1''), (''host_name'', PStr ''b'')]]"


section \<open>Joining a second table (views.py, \_do\_table\_join)\<close>

text \<open>
  The state of the loop over the rows of the join query: the dictionary
  \<open>per_master_entry\<close> from a master key, the pair of site and master column value, to the
  dictionary of the joined rows by their join key, and \<open>current_key\<close>. The variable
  \<open>current_entry\<close> of the source is always the dictionary stored under \<open>current_key\<close>, so
  a write to it is a write to that entry of \<open>per_master_entry\<close>.
\<close>

type_synonym JoinMasterKey = "pyval \<times> pyval"

record join_state =
  per_master_entry :: "(JoinMasterKey \<times> (string \<times> pyval) list) list"
  current_key :: "JoinMasterKey option"

definition current_entry :: "join_state \<Rightarrow> JoinMasterKey \<Rightarrow> (string \<times> pyval) list" where
  "current_entry st key = (case map_of (per_master_entry st) key of None \<Rightarrow> [] | Some d \<Rightarrow> d)"

text \<open>
  One round of the loop for a row of the join query. A column that the row lacks raises
  \<open>KeyError\<close>. The join key is a string by its declared type; another value is outside
  the model and ends it with \<open>TypeError\<close>.
\<close>

definition join_row_step :: "string \<Rightarrow> string \<Rightarrow> Row \<Rightarrow> join_state \<Rightarrow> error + join_state" where
  "join_row_step join_master_column join_slave_column row st =
     (case dict_item row ''site'' of
        Inl e \<Rightarrow> Inl e
      | Inr site \<Rightarrow>
          (case dict_item row join_master_column of
             Inl e \<Rightarrow> Inl e
           | Inr master_value \<Rightarrow>
               (let master_key = (site, master_value);
                    st1 = (if Some master_key \<noteq> current_key st
                           then \<lparr>per_master_entry = dict_set master_key [] (per_master_entry st),
                                 current_key = Some master_key\<rparr>
                           else st)
                in case dict_item row join_slave_column of
                     Inl e \<Rightarrow> Inl e
                   | Inr (PStr slave_key) \<Rightarrow>
                       Inr (st1\<lparr>per_master_entry :=
                              dict_set master_key
                                (dict_set slave_key (PDict row) (current_entry st1 master_key))
                                (per_master_entry st1)\<rparr>)
                   | Inr _ \<Rightarrow> Inl TypeError)))"

fun join_rows_loop :: "string \<Rightarrow> string \<Rightarrow> Rows \<Rightarrow> join_state \<Rightarrow> error + join_state" where
  "join_rows_loop join_master_column join_slave_column [] st = Inr st"
| "join_rows_loop join_master_column join_slave_column (row # rows) st =
     (case join_row_step join_master_column join_slave_column row st of
        Inl e \<Rightarrow> Inl e
      | Inr st' \<Rightarrow> join_rows_loop join_master_column join_slave_column rows st')"

text \<open>The loop over the master rows: each gets the artificial column "JOIN".\<close>

fun add_join_info ::
  "string \<Rightarrow> (JoinMasterKey \<times> (string \<times> pyval) list) list \<Rightarrow> Rows \<Rightarrow> error + Rows" where
  "add_join_info join_master_column entries [] = Inr []"
| "add_join_info join_master_column entries (row # master_rows) =
     (case dict_item row ''site'' of
        Inl e \<Rightarrow> Inl e
      | Inr site \<Rightarrow>
          (case dict_item row join_master_column of
             Inl e \<Rightarrow> Inl e
           | Inr master_value \<Rightarrow>
               (let key = (site, master_value);
                    joininfo = (case map_of entries key of None \<Rightarrow> [] | Some d \<Rightarrow> d)
                in case add_join_info join_master_column entries master_rows of
                     Inl e \<Rightarrow> Inl e
                   | Inr rest \<Rightarrow> Inr (dict_set ''JOIN'' (PDict joininfo) row # rest))))"

text \<open>
  \<open>_do_table_join\<close> after the join query: \<open>rows\<close> is what the query of the joined data
  source returned. The result is the list of master rows after the call.
\<close>

definition do_table_join :: "string \<Rightarrow> string \<Rightarrow> Rows \<Rightarrow> Rows \<Rightarrow> error + Rows" where
  "do_table_join join_master_column join_slave_column rows master_rows =
     (case join_rows_loop join_master_column join_slave_column rows
             \<lparr>per_master_entry = [], current_key = None\<rparr> of
        Inl e \<Rightarrow> Inl e
      | Inr st \<Rightarrow> add_join_info join_master_column (per_master_entry st) master_rows)"

text \<open>The master key and the join key of a row, for rows that have the columns.\<close>

definition master_key_of :: "string \<Rightarrow> Row \<Rightarrow> JoinMasterKey" where
  "master_key_of join_master_column row = (row_get row ''site'', row_get row join_master_column)"

definition slave_key_of :: "string \<Rightarrow> Row \<Rightarrow> string" where
  "slave_key_of join_slave_column row =
     (case map_of row join_slave_column of Some (PStr k) \<Rightarrow> k | _ \<Rightarrow> [])"

definition master_row_ok :: "string \<Rightarrow> Row \<Rightarrow> bool" where
  "master_row_ok join_master_column row =
     (map_of row ''site'' \<noteq> None \<and> map_of row join_master_column \<noteq> None)"

definition slave_row_ok :: "string \<Rightarrow> string \<Rightarrow> Row \<Rightarrow> bool" where
  "slave_row_ok join_master_column join_slave_column row =
     (master_row_ok join_master_column row \<and>
      (case map_of row join_slave_column of Some (PStr k) \<Rightarrow> True | _ \<Rightarrow> False))"

text \<open>
  A list of keys is grouped when equal keys are adjacent: read from the end, each key
  either repeats the key before it or does not occur before it.
\<close>

fun grouped_rev :: "'k list \<Rightarrow> bool" where
  "grouped_rev [] = True"
| "grouped_rev (k # earlier) =
     ((case earlier of [] \<Rightarrow> True | p # _ \<Rightarrow> p = k \<or> k \<notin> set earlier) \<and> grouped_rev earlier)"

definition grouped :: "'k list \<Rightarrow> bool" where
  "grouped ks = grouped_rev (rev ks)"

text \<open>The "JOIN" value of a row of the result, when it is a dictionary.\<close>

definition join_info :: "Row \<Rightarrow> (string \<times> pyval) list option" where
  "join_info row = (case map_of row ''JOIN'' of Some (PDict d) \<Rightarrow> Some d | _ \<Rightarrow> None)"

text \<open>Rows used to evaluate the join on concrete inputs.\<close>

definition example_service_row :: "string \<Rightarrow> string \<Rightarrow> Row" where
  "example_service_row host service =
     [(''site'', PStr ''s1''), (''host_name'', PStr host), (''service_description'', PStr service)]"

definition example_master_row :: "string \<Rightarrow> Row" where
  "example_master_row host = [(''site'', PStr ''s1''), (''host_name'', PStr host)]"


section \<open>The view pipeline (views.py, show\_view)\<close>

text \<open>
  What \<open>show_view\<close> reads from the view, the request and the plugins: the view spec, the
  data source (its name, its infos, its join columns), the request variables, the active
  filters, the sorters of the view, the query of the data source and the query of the
  joined data source as functions of the header string, whether the view has join cells,
  the inventory and SLA data that plugins attach to the fetched rows, and the output
  format with the layout found for it.
\<close>

record view_env =
  view_spec :: "(string \<times> pyval) list"
  datasource_ident :: string
  datasource_infos :: "string list"
  datasource_join :: "(string \<times> string) option"
  slave_join_key :: string
  request_vars :: "(string \<times> string) list"
  all_active_filters :: "Filter list"
  view_sorters :: "SorterEntry list"
  table_query :: "string \<Rightarrow> error + Rows"
  join_table_query :: "string \<Rightarrow> error + Rows"
  has_join_cells :: bool
  add_inventory_and_sla :: "Rows \<Rightarrow> Rows"
  output_format :: string
  layout_has_individual_csv_export :: bool
  output_layout_registered :: bool

text \<open>How \<open>show_view\<close> ends when it does not raise.\<close>

datatype view_result =
    AvailabilityPage string
  | BIAvailability Rows
  | RowCount nat
  | CsvExport Rows
  | Rendered Rows nat

text \<open>\<open>for filter_ in all_active_filters: rows = filter_.filter_table(rows)\<close>.\<close>

definition apply_filter_tables :: "Filter list \<Rightarrow> Rows \<Rightarrow> Rows" where
  "apply_filter_tables filters rows = fold (\<lambda>filt rows. filter_table filt rows) filters rows"

text \<open>
  The rows as they are before \<open>_sort_data\<close>: the query of the data source, the join when the
  view has join cells, and the data attached by the inventory and SLA plugins.
\<close>

definition fetch_rows :: "view_env \<Rightarrow> string \<Rightarrow> string \<Rightarrow> error + Rows" where
  "fetch_rows env headers filterheaders =
     (case table_query env headers of
        Inl e \<Rightarrow> Inl e
      | Inr rows \<Rightarrow>
          (case (if has_join_cells env then
                   (case datasource_join env of
                      None \<Rightarrow> Inl (OtherException ''AssertionError'')
                    | Some (join_table, join_master_column) \<Rightarrow>
                        (case join_table_query env filterheaders of
                           Inl e \<Rightarrow> Inl e
                         | Inr slave_rows \<Rightarrow>
                             do_table_join join_master_column (slave_join_key env) slave_rows rows))
                 else Inr rows) of
             Inl e \<Rightarrow> Inl e
           | Inr rows \<Rightarrow> Inr (add_inventory_and_sla env rows)))"

text \<open>Whether the data is fetched: some views show data only after a search.\<close>

definition must_fetch :: "view_env \<Rightarrow> bool \<Rightarrow> bool" where
  "must_fetch env only_count =
     (only_count \<or> \<not> truthy (row_get (view_spec env) ''mustsearch'') \<or>
      (case map_of (request_vars env) ''filled_in'' of
         None \<Rightarrow> False
       | Some v \<Rightarrow> v \<in> set [''filter'', ''actions'', ''confirm'', ''painteroptions'']))"

text \<open>
  \<open>show_view\<close> from the computation of the filter headers to the call of the renderer.
  The painter options, the context variables and the display options that it sets up
  before, and the browser reload and alarm sounds before rendering, do not touch the rows
  and are left out.
\<close>

definition show_view :: "view_env \<Rightarrow> bool \<Rightarrow> error + view_result" where
  "show_view env only_count =
     (case get_livestatus_filter_headers (datasource_ident env) (all_active_filters env) of
        Inl e \<Rightarrow> Inl e
      | Inr (filterheaders, user_errors) \<Rightarrow>
          if map_of (request_vars env) ''mode'' = Some ''availability'' \<and>
             (''aggr'' \<notin> set (datasource_infos env) \<or>
              (case map_of (request_vars env) ''timeline_aggr'' of None \<Rightarrow> False | Some v \<Rightarrow> v \<noteq> []))
          then Inr (AvailabilityPage filterheaders)
          else
            (case query_headers (view_spec env) filterheaders of
               Inl e \<Rightarrow> Inl e
             | Inr headers \<Rightarrow>
                 (let sorters = (if only_count then [] else view_sorters env) in
                  case (if must_fetch env only_count then
                          (case fetch_rows env headers filterheaders of
                             Inl e \<Rightarrow> Inl e
                           | Inr rows \<Rightarrow> sort_data sorters rows)
                        else Inr []) of
                    Inl e \<Rightarrow> Inl e
                  | Inr rows \<Rightarrow>
                      (let unfiltered_amount_of_rows = length rows;
                           rows = apply_filter_tables (all_active_filters env) rows
                       in if map_of (request_vars env) ''mode'' = Some ''availability''
                          then Inr (BIAvailability rows)
                          else if only_count then Inr (RowCount (length rows))
                          else if output_format env \<noteq> ''html'' then
                            (if layout_has_individual_csv_export env then Inr (CsvExport rows)
                             else if \<not> output_layout_registered env
                               then Inl (MKUserError (Some ''output_format'')
                                           ''Output format not supported'')
                             else Inr (Rendered rows unfiltered_amount_of_rows))
                          else Inr (Rendered rows unfiltered_amount_of_rows)))))"

text \<open>A view used to evaluate \<open>show_view\<close>: two hosts, one of which a filter removes.\<close>

definition example_table_filter :: Filter where
  "example_table_filter =
     \<lparr>filter_value = Inr (PStr ''a''), validate_value = (\<lambda>_. Inr ()),
      filter_hdr = (\<lambda>_. Inr []),
      filter_table = filter (\<lambda>row. map_of row ''host_name'' = Some (PStr ''a''))\<rparr>"

definition example_view :: view_env where
  "example_view =
     \<lparr>view_spec = [(''datasource'', PStr ''hosts'')],
      datasource_ident = ''hosts'', datasource_infos = [''host''],
      datasource_join = Some (''services'', ''host_name''),
      slave_join_key = ''service_description'',
      request_vars = [],
      all_active_filters = [example_table_filter],
      view_sorters = [\<lparr>sorter_cmp = cmp_num_column ''state'', negate = False, join_key = None\<rparr>],
      table_query = (\<lambda>headers.
        Inr [[(''site'', PStr ''s1''), (''host_name'', PStr ''b''), (''state'', PInt 1)],
             [(''site'', PStr ''s1''), (''host_name'', PStr ''a''), (''state'', PInt 0)]]),
      join_table_query = (\<lambda>headers. Inr []),
      has_join_cells = False,
      add_inventory_and_sla = (\<lambda>rows. rows),
      output_format = ''html'',
      layout_has_individual_csv_export = False,
      output_layout_registered = True\<rparr>"


text \<open>
  The early return of \<open>show_view\<close> to the availability page, which needs the filter headers
  only and does not query the data source.
\<close>

definition availability_page_requested :: "view_env \<Rightarrow> bool" where
  "availability_page_requested env =
     (map_of (request_vars env) ''mode'' = Some ''availability'' \<and>
      (''aggr'' \<notin> set (datasource_infos env) \<or>
       (case map_of (request_vars env) ''timeline_aggr'' of None \<Rightarrow> False | Some v \<Rightarrow> v \<noteq> [])))"

text \<open>
  A view used to evaluate the header string of the data query: one filter of three is
  invalid, the view spec adds a header, and the data source answers the expected header
  string only.
\<close>

definition example_headers_view :: view_env where
  "example_headers_view =
     example_view
       \<lparr>view_spec := [(''add_headers'', PStr ''Limit: 5\<newline>'')],
        all_active_filters := [example_filter_ok, example_filter_invalid, example_filter_ok],
        table_query := (\<lambda>headers.
          if headers = ''Filter: host_name ~ web\<newline>Filter: host_name ~ web\<newline>Limit: 5\<newline>''
          then Inr [[(''site'', PStr ''s1''), (''host_name'', PStr ''web1''), (''state'', PInt 0)]]
          else Inl (OtherException ''unexpected query''))\<rparr>"


section \<open>Properties\<close>

subsection \<open>get\_limit\<close>

text \<open>
  C3. \<open>get_limit\<close> returns the soft query limit, except that it returns the hard query
  limit when the request variable "limit" is "hard" and the user may ignore the soft limit,
  and no limit when "limit" is "none" and the user may ignore the hard limit. A request of
  "none" without that permission yields the soft limit.
\<close>

theorem get_limit_cases:
  "(request_var vars ''limit'' ''soft'' = ''hard'' \<and> may ''general.ignore_soft_limit''
      \<longrightarrow> get_limit cfg may vars = Some (hard_query_limit cfg)) \<and>
   (request_var vars ''limit'' ''soft'' = ''none'' \<and> may ''general.ignore_hard_limit''
      \<longrightarrow> get_limit cfg may vars = None) \<and>
   (\<not> (request_var vars ''limit'' ''soft'' = ''hard'' \<and> may ''general.ignore_soft_limit'') \<and>
    \<not> (request_var vars ''limit'' ''soft'' = ''none'' \<and> may ''general.ignore_hard_limit'')
      \<longrightarrow> get_limit cfg may vars = Some (soft_query_limit cfg)) \<and>
   (request_var vars ''limit'' ''soft'' = ''none'' \<and> \<not> may ''general.ignore_hard_limit''
      \<longrightarrow> get_limit cfg may vars = Some (soft_query_limit cfg))"
  by (simp add: get_limit_def Let_def)


theorem get_limit_cases_witness:
  "get_limit \<lparr>soft_query_limit = 1000, hard_query_limit = 5000\<rparr>
       (\<lambda>p. p = ''general.ignore_soft_limit'') [(''limit'', ''hard'')] = Some 5000 \<and>
   get_limit \<lparr>soft_query_limit = 1000, hard_query_limit = 5000\<rparr>
       (\<lambda>p. p = ''general.ignore_hard_limit'') [(''limit'', ''none'')] = None \<and>
   get_limit \<lparr>soft_query_limit = 1000, hard_query_limit = 5000\<rparr>
       (\<lambda>p. p = ''general.ignore_soft_limit'') [(''limit'', ''none'')] = Some 1000 \<and>
   get_limit \<lparr>soft_query_limit = 1000, hard_query_limit = 5000\<rparr>
       (\<lambda>p. False) [] = Some 1000"
  using
    get_limit_cases [of "[(''limit'', ''hard'')]" "\<lambda>p. p = ''general.ignore_soft_limit''"
      "\<lparr>soft_query_limit = 1000, hard_query_limit = 5000\<rparr>"]
    get_limit_cases [of "[(''limit'', ''none'')]" "\<lambda>p. p = ''general.ignore_hard_limit''"
      "\<lparr>soft_query_limit = 1000, hard_query_limit = 5000\<rparr>"]
    get_limit_cases [of "[(''limit'', ''none'')]" "\<lambda>p. p = ''general.ignore_soft_limit''"
      "\<lparr>soft_query_limit = 1000, hard_query_limit = 5000\<rparr>"]
    get_limit_cases [of "[]" "\<lambda>p. False"
      "\<lparr>soft_query_limit = 1000, hard_query_limit = 5000\<rparr>"]
  by (simp add: request_var_def)

subsection \<open>OIDSpec\<close>

lemma endswith_dot: "endswith s ''.'' \<longleftrightarrow> s \<noteq> [] \<and> last s = CHR ''.''"
proof (cases s rule: rev_cases)
  case Nil
  then show ?thesis by (simp add: endswith_def)
next
  case (snoc ys y)
  then show ?thesis by (simp add: endswith_def)
qed

lemma filter_invalid_empty:
  "filter (\<lambda>c. c \<notin> set VALID_CHARACTERS) s = [] \<longleftrightarrow> list_all (\<lambda>c. c \<in> set VALID_CHARACTERS) s"
  by (induction s) auto

lemma validate_PStr: "validate (PStr s) = Inr () \<longleftrightarrow> oid_chars_ok s"
  unfolding validate_def oid_chars_ok_def
  by (simp add: endswith_dot filter_invalid_empty)

lemma validate_Inr_is_str: "validate v = Inr u \<Longrightarrow> \<exists>s. v = PStr s \<and> oid_chars_ok s"
  by (cases v) (auto simp: validate_def validate_PStr [symmetric] split: if_splits)

lemma OIDSpec_init_PStr:
  "OIDSpec_init cls (PStr s) = Inr x \<longleftrightarrow> oid_chars_ok s \<and> x = \<lparr>oid_class = cls, oid_value = s\<rparr>"
proof (cases "validate (PStr s)")
  case (Inl e)
  then show ?thesis
    using validate_PStr [of s] by (auto simp: OIDSpec_init_def)
next
  case (Inr u)
  then show ?thesis
    using validate_PStr [of s] by (auto simp: OIDSpec_init_def)
qed

lemma OIDSpec_init_ok: "OIDSpec_init cls v = Inr x \<Longrightarrow> oid_chars_ok (oid_value x)"
proof -
  assume a: "OIDSpec_init cls v = Inr x"
  then obtain u where "validate v = Inr u"
    by (cases "validate v") (auto simp: OIDSpec_init_def)
  then obtain s where "v = PStr s" "oid_chars_ok s"
    using validate_Inr_is_str by blast
  with a show ?thesis by (simp add: OIDSpec_init_PStr)
qed

lemma constructed_iff: "constructed x \<longleftrightarrow> oid_chars_ok (oid_value x)"
  by (simp add: constructed_def OIDSpec_init_PStr)

lemma oid_chars_ok_join:
  "oid_chars_ok a \<Longrightarrow> oid_chars_ok b \<Longrightarrow> oid_chars_ok (a @ ''.'' @ b)"
  by (auto simp: oid_chars_ok_def VALID_CHARACTERS_def)

text \<open>
  C8. For constructed OID specs, \<open>a + right\<close> succeeds exactly when \<open>right\<close> is an OID spec
  \<open>b\<close>, the value of \<open>a\<close> starts with a dot and the value of \<open>b\<close> does not. The result then
  has the class of \<open>b\<close> and the value \<open>str(a) + "." + str(b)\<close>. A right operand that is no
  OID spec raises \<open>TypeError\<close>, a violated dot condition raises \<open>ValueError\<close>, and every object
  the constructor returns holds a non-empty string of digits and dots that does not end
  in a dot.
\<close>

theorem oid_add_spec:
  assumes "constructed a" and "\<forall>b. right = OID b \<longrightarrow> constructed b"
  shows "((\<exists>r. oid_add a right = Inr r) \<longleftrightarrow>
            (\<exists>b. right = OID b \<and> startswith (oid_value a) ''.'' \<and> \<not> startswith (oid_value b) ''.'')) \<and>
         (\<forall>b. right = OID b \<and> startswith (oid_value a) ''.'' \<and> \<not> startswith (oid_value b) ''.'' \<longrightarrow>
            oid_add a right =
              Inr \<lparr>oid_class = oid_class b, oid_value = oid_value a @ ''.'' @ oid_value b\<rparr>) \<and>
         (\<forall>v. right = NotOID v \<longrightarrow> oid_add a right = Inl TypeError) \<and>
         (\<forall>b. right = OID b \<and> (\<not> startswith (oid_value a) ''.'' \<or> startswith (oid_value b) ''.'') \<longrightarrow>
            oid_add a right = Inl ValueError) \<and>
         (\<forall>cls v x. OIDSpec_init cls v = Inr x \<longrightarrow> oid_chars_ok (oid_value x))"
proof -
  have ok: "oid_add a (OID b) =
              Inr \<lparr>oid_class = oid_class b, oid_value = oid_value a @ ''.'' @ oid_value b\<rparr>"
    if "right = OID b" "startswith (oid_value a) ''.''" "\<not> startswith (oid_value b) ''.''" for b
  proof -
    have "oid_chars_ok (oid_value a @ ''.'' @ oid_value b)"
      using assms that(1) oid_chars_ok_join [of "oid_value a" "oid_value b"]
      by (simp add: constructed_iff)
    then show ?thesis
      using that(2,3) by (simp add: oid_add_def OIDSpec_init_PStr)
  qed
  have ty: "oid_add a (NotOID v) = Inl TypeError" for v
    by (simp add: oid_add_def)
  have va: "oid_add a (OID b) = Inl ValueError"
    if "\<not> startswith (oid_value a) ''.'' \<or> startswith (oid_value b) ''.''" for b
    using that by (auto simp: oid_add_def)
  have iff: "(\<exists>r. oid_add a right = Inr r) \<longleftrightarrow>
      (\<exists>b. right = OID b \<and> startswith (oid_value a) ''.'' \<and> \<not> startswith (oid_value b) ''.'')"
  proof (cases right)
    case (OID b)
    show ?thesis
    proof (cases "startswith (oid_value a) ''.'' \<and> \<not> startswith (oid_value b) ''.''")
      case True
      then show ?thesis using OID ok [of b] by simp
    next
      case False
      then show ?thesis using OID va [of b] by auto
    qed
  next
    case (NotOID v)
    then show ?thesis using ty [of v] by simp
  qed
  show ?thesis
    using iff ok ty va OIDSpec_init_ok by blast
qed

theorem oid_add_spec_witness:
  "constructed \<lparr>oid_class = ''OIDSpec'', oid_value = ''.1.3.6''\<rparr> \<and>
   constructed \<lparr>oid_class = ''OIDCached'', oid_value = ''4.1''\<rparr> \<and>
   oid_add \<lparr>oid_class = ''OIDSpec'', oid_value = ''.1.3.6''\<rparr>
       (OID \<lparr>oid_class = ''OIDCached'', oid_value = ''4.1''\<rparr>) =
     Inr \<lparr>oid_class = ''OIDCached'', oid_value = ''.1.3.6.4.1''\<rparr>"
proof -
  have a: "constructed \<lparr>oid_class = ''OIDSpec'', oid_value = ''.1.3.6''\<rparr>"
    by (simp add: constructed_iff oid_chars_ok_def VALID_CHARACTERS_def)
  have b: "constructed \<lparr>oid_class = ''OIDCached'', oid_value = ''4.1''\<rparr>"
    by (simp add: constructed_iff oid_chars_ok_def VALID_CHARACTERS_def)
  have h: "\<forall>x. OID \<lparr>oid_class = ''OIDCached'', oid_value = ''4.1''\<rparr> = OID x \<longrightarrow> constructed x"
    using b by simp
  have s: "startswith (oid_value \<lparr>oid_class = ''OIDSpec'', oid_value = ''.1.3.6''\<rparr>) ''.'' \<and>
       \<not> startswith (oid_value \<lparr>oid_class = ''OIDCached'', oid_value = ''4.1''\<rparr>) ''.''"
    by (simp add: startswith_def)
  have "oid_add \<lparr>oid_class = ''OIDSpec'', oid_value = ''.1.3.6''\<rparr>
       (OID \<lparr>oid_class = ''OIDCached'', oid_value = ''4.1''\<rparr>) =
     Inr \<lparr>oid_class = oid_class \<lparr>oid_class = ''OIDCached'', oid_value = ''4.1''\<rparr>,
       oid_value = oid_value \<lparr>oid_class = ''OIDSpec'', oid_value = ''.1.3.6''\<rparr> @ ''.'' @
          oid_value \<lparr>oid_class = ''OIDCached'', oid_value = ''4.1''\<rparr>\<rparr>"
    using oid_add_spec [OF a h] s by blast
  then show ?thesis
    using a b by simp
qed

subsection \<open>SNMPHostConfig.update\<close>

lemma map_fst_dict_set:
  "k \<in> fst ` set d \<Longrightarrow> map fst (dict_set k v d) = map fst d"
  by (induction d) auto

lemma map_of_dict_set: "map_of (dict_set k v d) = (map_of d)(k \<mapsto> v)"
  by (induction d) (auto simp: fun_eq_iff)

lemma map_fst_dict_update:
  "fst ` set kwargs \<subseteq> fst ` set d \<Longrightarrow> map fst (dict_update d kwargs) = map fst d"
  unfolding dict_update_def
proof (induction kwargs arbitrary: d)
  case Nil
  then show ?case by simp
next
  case (Cons p ps)
  obtain k v where p: "p = (k, v)" by (cases p)
  have 1: "map fst (dict_set k v d) = map fst d"
    using Cons.prems p by (simp add: map_fst_dict_set)
  then have "fst ` set ps \<subseteq> fst ` set (dict_set k v d)"
    using Cons.prems by (metis list.set_map set_subset_Cons image_mono subset_trans)
  from Cons.IH [OF this] 1 show ?case by (simp add: p)
qed

lemma map_of_dict_update:
  "map_of (dict_update d kwargs) = map_of d ++ map_of (rev kwargs)"
  unfolding dict_update_def
proof (induction kwargs arbitrary: d)
  case Nil
  then show ?case by simp
next
  case (Cons p ps)
  obtain k v where p: "p = (k, v)" by (cases p)
  show ?case
    by (simp add: p Cons.IH map_of_dict_set map_add_def fun_eq_iff split: option.splits)
qed

lemma SNMPHostConfig_new_asdict:
  assumes "map fst cfg = SNMPHostConfig_fields"
  shows "\<exists>c. SNMPHostConfig_new cfg = Inr c \<and> asdict c = cfg"
proof -
  from assms obtain a1 a2 a3 a4 a5 a6 a7 a8 a9 a10 a11 a12 a13 a14 a15 where
    "cfg = [(''is_ipv6_primary'', a1), (''hostname'', a2),
      (''ipaddress'', a3), (''credentials'', a4), (''port'', a5),
      (''is_bulkwalk_host'', a6),
      (''is_snmpv2or3_without_bulkwalk_host'', a7),
      (''bulk_walk_size_of'', a8), (''timing'', a9),
      (''oid_range_limits'', a10), (''snmpv3_contexts'', a11),
      (''character_encoding'', a12), (''is_usewalk_host'', a13),
      (''is_inline_snmp_host'', a14), (''record_stats'', a15)]"
    unfolding SNMPHostConfig_fields_def
    by (auto simp: map_eq_Cons_conv)
  then show ?thesis
    by (simp add: SNMPHostConfig_new_def SNMPHostConfig_fields_def asdict_def)
qed

text \<open>
  C9. For keyword arguments that name existing fields, \<open>c.update(**kwargs)\<close> returns a
  configuration in which every named field carries the given value and every other field
  equals the field of \<open>c\<close>. The original \<open>c\<close> is a value of the model and is not written by
  \<open>update\<close>, which works on the fresh dictionary of \<open>_asdict\<close>.
\<close>

theorem update_fields:
  assumes "set (map fst kwargs) \<subseteq> set SNMPHostConfig_fields" and "distinct (map fst kwargs)"
  shows "\<exists>c'. update c kwargs = Inr c' \<and>
           (\<forall>f \<in> set SNMPHostConfig_fields.
              getattr c' f = (case map_of kwargs f of Some v \<Rightarrow> Some v | None \<Rightarrow> getattr c f))"
proof -
  have keys: "map fst (asdict c) = SNMPHostConfig_fields"
    by (simp add: asdict_def SNMPHostConfig_fields_def)
  have "fst ` set kwargs \<subseteq> fst ` set (asdict c)"
    using assms(1) keys by (metis list.set_map)
  then have "map fst (dict_update (asdict c) kwargs) = SNMPHostConfig_fields"
    using keys by (simp add: map_fst_dict_update)
  then obtain c' where c': "SNMPHostConfig_new (dict_update (asdict c) kwargs) = Inr c'"
      "asdict c' = dict_update (asdict c) kwargs"
    using SNMPHostConfig_new_asdict by blast
  have "map_of (rev kwargs) = map_of kwargs"
  proof -
    have "distinct (map fst (rev kwargs))"
      using assms(2) by (simp add: rev_map [symmetric])
    then show ?thesis
      using assms(2) map_of_inject_set [of "rev kwargs" kwargs] by simp
  qed
  then have "getattr c' f = (case map_of kwargs f of Some v \<Rightarrow> Some v | None \<Rightarrow> getattr c f)" for f
    by (simp add: getattr_def c'(2) map_of_dict_update map_add_def split: option.splits)
  with c'(1) show ?thesis
    by (simp add: update_def)
qed

theorem update_fields_witness:
  "set (map fst [(''port'', PInt 162), (''is_bulkwalk_host'', PBool True)])
       \<subseteq> set SNMPHostConfig_fields \<and>
   distinct (map fst [(''port'', PInt 162), (''is_bulkwalk_host'', PBool True)]) \<and>
   (\<exists>c'. update example_config [(''port'', PInt 162), (''is_bulkwalk_host'', PBool True)] = Inr c' \<and>
      getattr c' ''port'' = Some (PInt 162) \<and>
      getattr c' ''is_bulkwalk_host'' = Some (PBool True) \<and>
      getattr c' ''hostname'' = Some (PStr ''localhost''))"
proof -
  let ?kw = "[(''port'', PInt 162), (''is_bulkwalk_host'', PBool True)]"
  have h1: "set (map fst ?kw) \<subseteq> set SNMPHostConfig_fields"
    by (simp add: SNMPHostConfig_fields_def)
  have h2: "distinct (map fst ?kw)"
    by simp
  obtain c' where u: "update example_config ?kw = Inr c'"
    and g: "\<forall>f \<in> set SNMPHostConfig_fields.
              getattr c' f =
                (case map_of ?kw f of Some v \<Rightarrow> Some v | None \<Rightarrow> getattr example_config f)"
    using update_fields [OF h1 h2, of example_config] by blast
  have "getattr c' ''port'' = Some (PInt 162)"
    using g by (simp add: SNMPHostConfig_fields_def)
  moreover have "getattr c' ''is_bulkwalk_host'' = Some (PBool True)"
    using g by (simp add: SNMPHostConfig_fields_def)
  moreover have "getattr c' ''hostname'' = Some (PStr ''localhost'')"
    using g by (simp add: SNMPHostConfig_fields_def getattr_def asdict_def example_config_def)
  ultimately show ?thesis
    using h1 h2 u by blast
qed

subsection \<open>Filter headers\<close>

lemma filter_try_contribution:
  "raises_at_most_user_error ident filt \<Longrightarrow>
     (case filter_try ident filt of
        Inr h \<Rightarrow> header_contribution ident filt = h
      | Inl e \<Rightarrow> is_user_error e \<and> header_contribution ident filt = [])"
  by (auto simp: raises_at_most_user_error_def filter_try_def header_contribution_def
      split: sum.splits)

lemma filter_headers_loop_concat:
  "list_all (raises_at_most_user_error ident) filts \<Longrightarrow>
     \<exists>errs. filter_headers_loop ident filts hdr errs0 =
       Inr (hdr @ concat (map (header_contribution ident) filts), errs)"
proof (induction filts arbitrary: hdr errs0)
  case Nil
  then show ?case by simp
next
  case (Cons f fs)
  then have f: "raises_at_most_user_error ident f"
    and fs: "list_all (raises_at_most_user_error ident) fs"
    by simp_all
  show ?case
  proof (cases "filter_try ident f")
    case (Inr h)
    then have "header_contribution ident f = h"
      using filter_try_contribution [OF f] by simp
    then show ?thesis
      using Inr Cons.IH [OF fs, of "hdr @ h" errs0] by simp
  next
    case (Inl e)
    then have e: "is_user_error e" and c: "header_contribution ident f = []"
      using filter_try_contribution [OF f] by simp_all
    from e obtain varname msg where "e = MKUserError varname msg"
      by (cases e) (simp_all add: is_user_error_def)
    then show ?thesis
      using Inl c Cons.IH [OF fs, of hdr "errs0 @ [(varname, msg)]"] by simp
  qed
qed

lemma filter_headers_value:
  assumes "list_all (raises_at_most_user_error ident) filts"
    and "map_of spec ''add_headers'' = Some (PStr add) \<or>
         (map_of spec ''add_headers'' = None \<and> add = [])"
  shows "\<exists>errs. get_livestatus_filter_headers ident filts =
             Inr (concat (map (header_contribution ident) filts), errs) \<and>
           query_headers spec (concat (map (header_contribution ident) filts)) =
             Inr (concat (map (header_contribution ident) filts) @ add)"
proof -
  obtain errs where "get_livestatus_filter_headers ident filts =
      Inr (concat (map (header_contribution ident) filts), errs)"
    using filter_headers_loop_concat [OF assms(1), of "[]" "[]"]
    by (auto simp: get_livestatus_filter_headers_def)
  moreover have "query_headers spec (concat (map (header_contribution ident) filts)) =
      Inr (concat (map (header_contribution ident) filts) @ add)"
    using assms(2) by (auto simp: query_headers_def)
  ultimately show ?thesis by blast
qed

text \<open>
  C4. When every active filter either succeeds or raises \<open>MKUserError\<close>, the header string
  built for the view is the concatenation, in filter-list order, of the \<open>filter()\<close> outputs
  of the filters whose value passes \<open>validate_value\<close>, followed by the "add\_headers" value
  of the view spec; a filter that raises \<open>MKUserError\<close> contributes nothing and the
  remaining filters are still processed. This string is the one \<open>show_view\<close> hands to the
  query of the data source: when the data is fetched, \<open>show_view\<close> fails as that query fails
  on this string and otherwise goes on with the rows the query returns for it, and the
  answers of the query to other header strings do not matter.
\<close>

theorem filter_headers_concat:
  assumes "list_all (raises_at_most_user_error (datasource_ident env)) (all_active_filters env)"
    and "map_of (view_spec env) ''add_headers'' = Some (PStr add) \<or>
         (map_of (view_spec env) ''add_headers'' = None \<and> add = [])"
  shows "(\<exists>errs. get_livestatus_filter_headers (datasource_ident env) (all_active_filters env) =
            Inr (concat (map (header_contribution (datasource_ident env)) (all_active_filters env)),
                 errs)) \<and>
         query_headers (view_spec env)
             (concat (map (header_contribution (datasource_ident env)) (all_active_filters env))) =
           Inr (concat (map (header_contribution (datasource_ident env)) (all_active_filters env))
                @ add) \<and>
         (must_fetch env only_count \<and> \<not> availability_page_requested env \<longrightarrow>
            show_view env only_count =
              (case table_query env
                      (concat (map (header_contribution (datasource_ident env))
                         (all_active_filters env)) @ add) of
                 Inl e \<Rightarrow> Inl e
               | Inr rows \<Rightarrow> show_view (env\<lparr>table_query := (\<lambda>headers. Inr rows)\<rparr>) only_count)) \<and>
         (\<forall>query.
            query (concat (map (header_contribution (datasource_ident env))
                     (all_active_filters env)) @ add) =
            table_query env (concat (map (header_contribution (datasource_ident env))
                     (all_active_filters env)) @ add) \<longrightarrow>
            show_view (env\<lparr>table_query := query\<rparr>) only_count = show_view env only_count)"
proof -
  let ?C = "concat (map (header_contribution (datasource_ident env)) (all_active_filters env))"
  let ?H = "?C @ add"
  from filter_headers_value [OF assms] obtain errs where
    g: "get_livestatus_filter_headers (datasource_ident env) (all_active_filters env) =
          Inr (?C, errs)"
    and q: "query_headers (view_spec env) ?C = Inr ?H"
    by blast
  have sv: "show_view (env\<lparr>table_query := query\<rparr>) only_count =
      (if availability_page_requested env then Inr (AvailabilityPage ?C)
       else
         (let sorters = (if only_count then [] else view_sorters env) in
          case (if must_fetch env only_count then
                  (case fetch_rows (env\<lparr>table_query := query\<rparr>) ?H ?C of
                     Inl e \<Rightarrow> Inl e
                   | Inr rows \<Rightarrow> sort_data sorters rows)
                else Inr []) of
            Inl e \<Rightarrow> Inl e
          | Inr rows \<Rightarrow>
              (let unfiltered_amount_of_rows = length rows;
                   rows = apply_filter_tables (all_active_filters env) rows
               in if map_of (request_vars env) ''mode'' = Some ''availability''
                  then Inr (BIAvailability rows)
                  else if only_count then Inr (RowCount (length rows))
                  else if output_format env \<noteq> ''html'' then
                    (if layout_has_individual_csv_export env then Inr (CsvExport rows)
                     else if \<not> output_layout_registered env
                       then Inl (MKUserError (Some ''output_format'')
                                   ''Output format not supported'')
                     else Inr (Rendered rows unfiltered_amount_of_rows))
                  else Inr (Rendered rows unfiltered_amount_of_rows))))" for query
    using g q
    by (simp add: show_view_def availability_page_requested_def must_fetch_def
        split del: if_split cong del: if_weak_cong sum.case_cong_weak)
  have fr: "fetch_rows (env\<lparr>table_query := query\<rparr>) ?H ?C =
      (case query ?H of
         Inl e \<Rightarrow> Inl e
       | Inr rows \<Rightarrow> fetch_rows (env\<lparr>table_query := (\<lambda>headers. Inr rows)\<rparr>) ?H ?C)" for query
    by (cases "query ?H")
       (simp_all add: fetch_rows_def
          cong del: if_weak_cong sum.case_cong_weak option.case_cong_weak prod.case_cong_weak)
  have fq: "fetch_rows (env\<lparr>table_query := query\<rparr>) ?H ?C = fetch_rows env ?H ?C"
    if "query ?H = table_query env ?H" for query
    using that
    by (simp add: fetch_rows_def
        cong del: if_weak_cong sum.case_cong_weak option.case_cong_weak prod.case_cong_weak)
  have same: "show_view (env\<lparr>table_query := query\<rparr>) only_count = show_view env only_count"
    if "query ?H = table_query env ?H" for query
  proof -
    have e: "env\<lparr>table_query := table_query env\<rparr> = env" by simp
    show ?thesis
      using sv [of query] sv [of "table_query env"] fq [of query, OF that]
      unfolding e by simp
  qed
  have run: "show_view env only_count =
      (case table_query env ?H of
         Inl e \<Rightarrow> Inl e
       | Inr rows \<Rightarrow> show_view (env\<lparr>table_query := (\<lambda>headers. Inr rows)\<rparr>) only_count)"
    if m: "must_fetch env only_count" and a: "\<not> availability_page_requested env"
  proof (cases "table_query env ?H")
    case (Inl e)
    have e: "env\<lparr>table_query := table_query env\<rparr> = env" by simp
    have "fetch_rows env ?H ?C = Inl e"
      using fr [of "table_query env"] Inl unfolding e by simp
    then show ?thesis
      using sv [of "table_query env"] m a Inl unfolding e by simp
  next
    case (Inr rows)
    have "show_view (env\<lparr>table_query := (\<lambda>headers. Inr rows)\<rparr>) only_count =
        show_view env only_count"
      using same [of "\<lambda>headers. Inr rows"] Inr by simp
    then show ?thesis using Inr by simp
  qed
  show ?thesis
    using g q run same by blast
qed


lemmas headers_example_defs = example_headers_view_def example_view_def example_filter_ok_def
  example_filter_invalid_def example_table_filter_def cmp_num_column_def

theorem filter_headers_concat_witness:
  "list_all (raises_at_most_user_error (datasource_ident example_headers_view))
     (all_active_filters example_headers_view) \<and>
   map_of (view_spec example_headers_view) ''add_headers'' = Some (PStr ''Limit: 5\<newline>'') \<and>
   must_fetch example_headers_view False \<and>
   \<not> availability_page_requested example_headers_view \<and>
   concat (map (header_contribution (datasource_ident example_headers_view))
     (all_active_filters example_headers_view)) @ ''Limit: 5\<newline>'' =
     ''Filter: host_name ~ web\<newline>Filter: host_name ~ web\<newline>Limit: 5\<newline>'' \<and>
   show_view example_headers_view False =
     show_view (example_headers_view\<lparr>table_query := (\<lambda>headers.
        Inr [[(''site'', PStr ''s1''), (''host_name'', PStr ''web1''), (''state'', PInt 0)]])\<rparr>)
       False \<and>
   show_view example_headers_view False =
     Inr (Rendered [[(''site'', PStr ''s1''), (''host_name'', PStr ''web1''), (''state'', PInt 0)]] 1)"
proof -
  let ?env = example_headers_view
  let ?H = "''Filter: host_name ~ web\<newline>Filter: host_name ~ web\<newline>Limit: 5\<newline>''"
  have h1: "list_all (raises_at_most_user_error (datasource_ident ?env)) (all_active_filters ?env)"
    by (simp add: headers_example_defs raises_at_most_user_error_def filter_try_def
        is_user_error_def)
  have h2: "map_of (view_spec ?env) ''add_headers'' = Some (PStr ''Limit: 5\<newline>'')"
    by (simp add: headers_example_defs)
  then have h2': "map_of (view_spec ?env) ''add_headers'' = Some (PStr ''Limit: 5\<newline>'') \<or>
      (map_of (view_spec ?env) ''add_headers'' = None \<and> ''Limit: 5\<newline>'' = [])"
    by simp
  have h3: "must_fetch ?env False"
    by (simp add: headers_example_defs must_fetch_def row_get_def)
  have h4: "\<not> availability_page_requested ?env"
    by (simp add: headers_example_defs availability_page_requested_def)
  have c: "concat (map (header_contribution (datasource_ident ?env)) (all_active_filters ?env))
      @ ''Limit: 5\<newline>'' = ?H"
    by (simp add: headers_example_defs header_contribution_def)
  have q: "table_query ?env ?H =
      Inr [[(''site'', PStr ''s1''), (''host_name'', PStr ''web1''), (''state'', PInt 0)]]"
    by (simp add: headers_example_defs)
  have r: "show_view ?env False =
     show_view (?env\<lparr>table_query := (\<lambda>headers.
        Inr [[(''site'', PStr ''s1''), (''host_name'', PStr ''web1''), (''state'', PInt 0)]])\<rparr>)
       False"
  proof -
    note t = filter_headers_concat [OF h1 h2', of False]
    have "must_fetch ?env False \<and> \<not> availability_page_requested ?env \<longrightarrow>
        show_view ?env False =
          (case table_query ?env
                  (concat (map (header_contribution (datasource_ident ?env))
                     (all_active_filters ?env)) @ ''Limit: 5\<newline>'') of
             Inl e \<Rightarrow> Inl e
           | Inr rows \<Rightarrow> show_view (?env\<lparr>table_query := (\<lambda>headers. Inr rows)\<rparr>) False)"
      using t by (rule conjunct1 [OF conjunct2 [OF conjunct2]])
    with h3 h4 have "show_view ?env False =
          (case table_query ?env
                  (concat (map (header_contribution (datasource_ident ?env))
                     (all_active_filters ?env)) @ ''Limit: 5\<newline>'') of
             Inl e \<Rightarrow> Inl e
           | Inr rows \<Rightarrow> show_view (?env\<lparr>table_query := (\<lambda>headers. Inr rows)\<rparr>) False)"
      by (elim impE) (intro conjI)
    then show ?thesis
      unfolding c q by (simp only: sum.case)
  qed
  have e: "show_view ?env False =
     Inr (Rendered [[(''site'', PStr ''s1''), (''host_name'', PStr ''web1''), (''state'', PInt 0)]] 1)"
    by (simp add: show_view_def headers_example_defs get_livestatus_filter_headers_def
        filter_try_def query_headers_def must_fetch_def row_get_def fetch_rows_def
        sort_data_def entry_compare_def is_join_entry_def apply_filter_tables_def Let_def)
  show ?thesis
    by (intro conjI) (rule h1 h2 h3 h4 c r e)+
qed

subsection \<open>Pattern editor\<close>

lemma show_pattern_rows_Cons:
  assumes "show_pattern_rows self rm (p # ps) am = Inr (rows, am')"
  shows "\<exists>row0 rows'. rows = row0 # rows' \<and>
           show_pattern_rows self rm ps (am \<or> pattern_hit self rm p) = Inr (rows', am') \<and>
           (match_class row0, match_img row0) =
             (if pattern_hit self rm p
              then (if am then (''match'', ''imatch'') else (''match first'', ''match''))
              else ([], ''nmatch''))"
proof -
  obtain state pattern comment where p: "p = (state, pattern, comment)"
    by (cases p) auto
  show ?thesis
  proof (cases rm)
    case False
    then have h: "\<not> pattern_hit self rm p"
      by (simp add: pattern_hit_def)
    from assms False obtain rows' where "show_pattern_rows self rm ps am = Inr (rows', am')"
      "rows = \<lparr>reason_class = ''noreason'', match_class = [],
                   match_img = ''nmatch'', disp_match_txt = None\<rparr> # rows'"
      unfolding p by (cases "show_pattern_rows self False ps am") auto
    with h show ?thesis by simp
  next
    case True
    show ?thesis
    proof (cases "re_search self pattern (self_match_txt self)")
      case (Inl e)
      then show ?thesis using assms True unfolding p by simp
    next
      case (Inr m)
      show ?thesis
      proof (cases m)
        case None
        then have h: "\<not> pattern_hit self rm p"
          using Inr by (simp add: pattern_hit_def p)
        from assms True Inr None obtain rows' where
          "show_pattern_rows self rm ps am = Inr (rows', am')"
          "rows = \<lparr>reason_class = ''reason'', match_class = [],
                   match_img = ''nmatch'', disp_match_txt = None\<rparr> # rows'"
          unfolding p by (cases "show_pattern_rows self True ps am") auto
        with h show ?thesis by simp
      next
        case (Some span)
        obtain s e where span: "span = (s, e)" by (cases span)
        have h: "pattern_hit self rm p"
          using True Inr Some by (simp add: pattern_hit_def p)
        show ?thesis
        proof (cases am)
          case am: True
          from assms True Inr Some span am obtain rows' where
            "show_pattern_rows self rm ps True = Inr (rows', am')"
            "rows = \<lparr>reason_class = ''reason'', match_class = ''match'',
                               match_img = ''imatch'', disp_match_txt = Some (take s (self_match_txt self),
                               drop s (take e (self_match_txt self)),
                               drop e (self_match_txt self))\<rparr> # rows'"
            unfolding p by (cases "show_pattern_rows self True ps True") auto
          with h am show ?thesis by simp
        next
          case am: False
          from assms True Inr Some span am obtain rows' where
            "show_pattern_rows self rm ps True = Inr (rows', am')"
            "rows = \<lparr>reason_class = ''reason'', match_class = ''match first'',
                               match_img = ''match'', disp_match_txt = Some (take s (self_match_txt self),
                               drop s (take e (self_match_txt self)),
                               drop e (self_match_txt self))\<rparr> # rows'"
            unfolding p by (cases "show_pattern_rows self True ps True") auto
          with h am show ?thesis by simp
        qed
      qed
    qed
  qed
qed


lemma show_pattern_rows_marks:
  "show_pattern_rows self rm ps am = Inr (rows, am') \<Longrightarrow>
     map (\<lambda>r. (match_class r, match_img r)) rows = mark_rows am (map (pattern_hit self rm) ps) \<and>
     am' = (am \<or> True \<in> set (map (pattern_hit self rm) ps))"
proof (induction ps arbitrary: am rows am')
  case Nil
  then show ?case by simp
next
  case (Cons p ps)
  from show_pattern_rows_Cons [OF Cons.prems] obtain row0 rows' where
    rows: "rows = row0 # rows'"
    and r: "show_pattern_rows self rm ps (am \<or> pattern_hit self rm p) = Inr (rows', am')"
    and m: "(match_class row0, match_img row0) =
             (if pattern_hit self rm p
              then (if am then (''match'', ''imatch'') else (''match first'', ''match''))
              else ([], ''nmatch''))"
    by blast
  from Cons.IH [OF r] have
    ih: "map (\<lambda>r. (match_class r, match_img r)) rows' =
           mark_rows (am \<or> pattern_hit self rm p) (map (pattern_hit self rm) ps)"
    and am': "am' = ((am \<or> pattern_hit self rm p) \<or> True \<in> set (map (pattern_hit self rm) ps))"
    by simp_all
  have 1: "map (\<lambda>r. (match_class r, match_img r)) rows =
      mark_rows am (map (pattern_hit self rm) (p # ps))"
  proof (cases "pattern_hit self rm p")
    case True
    then show ?thesis using m ih by (simp add: rows)
  next
    case False
    then show ?thesis using m ih by (simp add: rows)
  qed
  have 2: "am' = (am \<or> True \<in> set (map (pattern_hit self rm) (p # ps)))"
    using am' by auto
  from 1 2 show ?case by blast
qed

lemma mark_rows_append:
  "mark_rows am (xs @ ys) = mark_rows am xs @ mark_rows (am \<or> True \<in> set xs) ys"
  by (induction xs arbitrary: am) auto

lemma show_rules_marks:
  "show_rules self rules am = Inr tables \<Longrightarrow>
     map (\<lambda>r. (match_class r, match_img r)) (concat tables) =
       mark_rows am (concat (map (rule_hits self) rules))"
proof (induction rules arbitrary: am tables)
  case Nil
  then show ?case by simp
next
  case (Cons rule rules)
  from Cons.prems obtain rm where a1: "rule_applies self rule = Inr rm"
    by (cases "rule_applies self rule") auto
  from Cons.prems a1 obtain ps where a2: "rule_pattern_list rule = Inr ps"
    by (cases "rule_pattern_list rule") auto
  from Cons.prems a1 a2 obtain rows am1 where
    r: "show_pattern_rows self rm ps am = Inr (rows, am1)"
    by (cases "show_pattern_rows self rm ps am") auto
  from Cons.prems a1 a2 r obtain tables' where
    t: "show_rules self rules am1 = Inr tables'" "tables = rows # tables'"
    by (cases "show_rules self rules am1") auto
  have h: "rule_hits self rule = map (pattern_hit self rm) ps"
    using a1 a2 by (simp add: rule_hits_def)
  from show_pattern_rows_marks [OF r] Cons.IH [OF t(1)] show ?case
    by (simp add: t(2) h mark_rows_append)
qed

lemma mark_rows_nth:
  "i < length hs \<Longrightarrow>
     mark_rows am hs ! i =
       (if hs ! i then (if am \<or> True \<in> set (take i hs) then (''match'', ''imatch'')
                        else (''match first'', ''match''))
        else ([], ''nmatch''))"
proof (induction hs arbitrary: i am)
  case Nil
  then show ?case by simp
next
  case (Cons h hs)
  show ?case
  proof (cases i)
    case 0
    then show ?thesis by simp
  next
    case (Suc j)
    then have "j < length hs" using Cons.prems by simp
    from Cons.IH [OF this, of True] Cons.IH [OF this, of am] Suc show ?thesis
      by (cases h) simp_all
  qed
qed

lemma length_mark_rows: "length (mark_rows am hs) = length hs"
  by (induction hs arbitrary: am) auto

lemma mark_rows_first_count:
  "length (filter (\<lambda>m. fst m = ''match first'') (mark_rows am hs)) \<le> (if am then 0 else 1)"
proof (induction hs arbitrary: am)
  case Nil
  then show ?case by simp
next
  case (Cons h hs)
  show ?case
    using Cons.IH [of True] Cons.IH [of am] by (cases h; cases am) simp_all
qed

text \<open>
  C7. When \<open>_show_patterns\<close> returns, the rows in display order (rules in ruleset order,
  patterns in the order of their rule) are marked as follows: the first pattern that
  belongs to a rule applying to the host and item and whose regular expression matches the
  text is the defining first match, every later such pattern is a subsequent match, and
  every other pattern, in particular every pattern of a rule that does not apply, is not
  marked as a match. At most one row is the first match.
\<close>

theorem pattern_marks:
  assumes "show_patterns self = Inr tables"
  shows "length (concat tables) = length (pattern_hits self) \<and>
         (\<forall>i < length (pattern_hits self).
            match_class (concat tables ! i) = expected_class (pattern_hits self) i \<and>
            match_img (concat tables ! i) = expected_img (pattern_hits self) i) \<and>
         length (filter (\<lambda>r. match_class r = ''match first'') (concat tables)) \<le> 1"
proof -
  let ?m = "\<lambda>r. (match_class r, match_img r)"
  have m: "map ?m (concat tables) = mark_rows False (pattern_hits self)"
    using assms show_rules_marks [of self "get_rules self" False tables]
    by (simp add: show_patterns_def pattern_hits_def)
  have len: "length (concat tables) = length (pattern_hits self)"
    using arg_cong [OF m, of length] by (simp add: length_mark_rows)
  have nth: "match_class (concat tables ! i) = expected_class (pattern_hits self) i \<and>
            match_img (concat tables ! i) = expected_img (pattern_hits self) i"
    if "i < length (pattern_hits self)" for i
  proof -
    have "map ?m (concat tables) ! i = mark_rows False (pattern_hits self) ! i"
      using m by simp
    then have "?m (concat tables ! i) = mark_rows False (pattern_hits self) ! i"
      using that len by simp
    then show ?thesis
      using mark_rows_nth [OF that, of False]
      by (cases "pattern_hits self ! i"; cases "True \<in> set (take i (pattern_hits self))")
         (simp_all add: expected_class_def expected_img_def)
  qed
  have "length (filter (\<lambda>r. match_class r = ''match first'') (concat tables)) =
        length (filter (\<lambda>m. fst m = ''match first'') (map ?m (concat tables)))"
    by (simp add: filter_map comp_def)
  then have "length (filter (\<lambda>r. match_class r = ''match first'') (concat tables)) \<le> 1"
    using mark_rows_first_count [of False "pattern_hits self"] unfolding m by simp
  with len nth show ?thesis by blast
qed


theorem pattern_marks_witness:
  "\<exists>tables. show_patterns example_mode = Inr tables \<and>
     pattern_hits example_mode = [False, False, True, True] \<and>
     length (concat tables) = 4 \<and>
     match_class (concat tables ! 0) = [] \<and> match_img (concat tables ! 0) = ''nmatch'' \<and>
     match_class (concat tables ! 1) = [] \<and> match_img (concat tables ! 1) = ''nmatch'' \<and>
     match_class (concat tables ! 2) = ''match first'' \<and> match_img (concat tables ! 2) = ''match'' \<and>
     match_class (concat tables ! 3) = ''match'' \<and> match_img (concat tables ! 3) = ''imatch'' \<and>
     length (filter (\<lambda>r. match_class r = ''match first'') (concat tables)) \<le> 1"
proof -
  obtain tables where e: "show_patterns example_mode = Inr tables"
    by (simp add: show_patterns_def example_mode_def rule_applies_def rule_pattern_list_def
        dict_item_def)
  have h: "pattern_hits example_mode = [False, False, True, True]"
    by (simp add: pattern_hits_def rule_hits_def example_mode_def rule_applies_def
        rule_pattern_list_def dict_item_def pattern_hit_def)
  note pm = pattern_marks [OF e, unfolded h]
  from pm have len: "length (concat tables) = 4" by simp
  from pm have n: "\<And>i. i < 4 \<Longrightarrow>
      match_class (concat tables ! i) = expected_class [False, False, True, True] i \<and>
      match_img (concat tables ! i) = expected_img [False, False, True, True] i"
    by simp
  have r0: "match_class (concat tables ! 0) = [] \<and> match_img (concat tables ! 0) = ''nmatch''"
    using n [of 0] by (simp add: expected_class_def expected_img_def)
  have r1: "match_class (concat tables ! 1) = [] \<and> match_img (concat tables ! 1) = ''nmatch''"
    using n [of 1] by (simp add: expected_class_def expected_img_def)
  have r2: "match_class (concat tables ! 2) = ''match first'' \<and>
      match_img (concat tables ! 2) = ''match''"
    using n [of 2] by (simp add: expected_class_def expected_img_def)
  have r3: "match_class (concat tables ! 3) = ''match'' \<and>
      match_img (concat tables ! 3) = ''imatch''"
    using n [of 3] by (simp add: expected_class_def expected_img_def)
  from pm have "length (filter (\<lambda>r. match_class r = ''match first'') (concat tables)) \<le> 1"
    by simp
  with e h len r0 r1 r2 r3 show ?thesis by blast
qed

subsection \<open>Commands on rows\<close>

lemmas actions_example_defs = example_actions_env_def example_service_command_def example_bi_command_def
  service_comment_row_def host_comment_row_def core_command_def row_get_def


lemma execute_entries_plain:
  assumes "list_all is_plain cs"
    and "already_executed st = set (map call_pair (calls st))"
    and "distinct (map call_pair (calls st))"
  shows "already_executed (execute_entries ex row cs st) =
           set (map call_pair (calls (execute_entries ex row cs st))) \<and>
         distinct (map call_pair (calls (execute_entries ex row cs st))) \<and>
         already_executed (execute_entries ex row cs st) =
           already_executed st \<union> (\<lambda>c. (row_get row ''site'', c)) ` set cs"
  using assms
proof (induction cs arbitrary: st)
  case Nil
  then show ?case by simp
next
  case (Cons c cs)
  from Cons.prems(1) have cs: "list_all is_plain cs" and pc: "is_plain c"
    by simp_all
  from pc obtain cmd where c: "c = Plain cmd"
    by (cases c) (simp_all add: is_plain_def)
  let ?site = "row_get row ''site''"
  show ?case
  proof (cases "(?site, c) \<in> already_executed st")
    case True
    then have eq: "execute_entries ex row (c # cs) st = execute_entries ex row cs st"
      by simp
    from Cons.IH [OF cs Cons.prems(2) Cons.prems(3)] True show ?thesis
      unfolding eq by auto
  next
    case False
    let ?st = "\<lparr>calls = calls st @ [(ex, cmd, ?site)],
               already_executed = insert (?site, c) (already_executed st)\<rparr>"
    have eq: "execute_entries ex row (c # cs) st = execute_entries ex row cs ?st"
      using False by (simp add: c Let_def)
    have cp: "call_pair (ex, cmd, ?site) = (?site, c)"
      by (simp add: call_pair_def c)
    have 1: "already_executed ?st = set (map call_pair (calls ?st))"
      using Cons.prems(2) by (simp add: cp)
    have 2: "distinct (map call_pair (calls ?st))"
      using Cons.prems(2,3) False by (simp add: cp)
    from Cons.IH [OF cs 1 2] show ?thesis
      unfolding eq by auto
  qed
qed


lemma execute_rows_plain:
  assumes "all_rows_plain env what n rs"
    and "already_executed st = set (map call_pair (calls st))"
    and "distinct (map call_pair (calls st))"
  shows "\<exists>st'. execute_rows env what n rs st = (st', None) \<and>
           already_executed st' = set (map call_pair (calls st')) \<and>
           distinct (map call_pair (calls st')) \<and>
           already_executed st' = already_executed st \<union> set (produced_pairs env what n rs)"
  using assms
proof (induction rs arbitrary: st)
  case Nil
  then show ?case by simp
next
  case (Cons r rs)
  obtain nr row where r: "r = (nr, row)" by (cases r)
  have ap: "all_rows_plain env what n ((nr, row) # rs)"
    using Cons.prems(1) by (simp only: r)
  obtain cs title ex where cc: "core_command env what row nr n = Inr (cs, title, ex)"
  proof (cases "core_command env what row nr n")
    case (Inl e)
    with ap show ?thesis by simp
  next
    case (Inr t)
    with that show ?thesis by (cases t) simp
  qed
  have pl: "list_all is_plain cs" and rest: "all_rows_plain env what n rs"
    using ap by (simp_all add: cc)
  let ?st = "execute_entries ex row cs st"
  note e = execute_entries_plain [OF pl Cons.prems(2) Cons.prems(3), of ex row]
  have 1: "already_executed ?st = set (map call_pair (calls ?st))"
    using e by (rule conjunct1)
  have 2: "distinct (map call_pair (calls ?st))"
    using e by (rule conjunct1 [OF conjunct2])
  have 3: "already_executed ?st =
           already_executed st \<union> (\<lambda>c. (row_get row ''site'', c)) ` set cs"
    using e by (rule conjunct2 [OF conjunct2])
  from Cons.IH [OF rest 1 2] obtain st' where
    s1: "execute_rows env what n rs ?st = (st', None)"
    and s2: "already_executed st' = set (map call_pair (calls st'))"
    and s3: "distinct (map call_pair (calls st'))"
    and s4: "already_executed st' = already_executed ?st \<union> set (produced_pairs env what n rs)"
    by (elim exE conjE)
  have a: "execute_rows env what n (r # rs) st = (st', None)"
    using s1 by (simp add: r cc)
  have pp: "set (produced_pairs env what n (r # rs)) =
      (\<lambda>c. (row_get row ''site'', c)) ` set cs \<union> set (produced_pairs env what n rs)"
    by (simp add: r cc)
  have b: "already_executed st' =
      already_executed st \<union> set (produced_pairs env what n (r # rs))"
    unfolding pp s4 3 by (simp only: Un_assoc)
  show ?case
    using a s2 s3 b by (intro exI [of _ st'] conjI)
qed

text \<open>
  C6, as amended. \<open>do_actions\<close> executes no command and returns \<open>False\<close> when the user lacks
  the permission "general.act" or no row is selected, and also when the confirmation is
  declined. When \<open>core_command\<close> raises for the first row, no command is executed and the
  exception leaves \<open>do_actions\<close>. When the confirmation is given and \<open>core_command\<close> succeeds
  on every row with commands that carry no site of their own, every distinct pair of the
  row's site and a command is executed exactly once and \<open>do_actions\<close> returns \<open>True\<close>.
\<close>

theorem do_actions_spec:
  "(\<not> user_may env ''general.act'' \<or> action_rows = [] \<longrightarrow>
      do_actions env what action_rows = ([], Inr False)) \<and>
   (user_may env ''general.act'' \<and> action_rows \<noteq> [] \<and>
    core_command env what (hd action_rows) 0 (length action_rows) = Inl e \<longrightarrow>
      do_actions env what action_rows = ([], Inl e)) \<and>
   (user_may env ''general.act'' \<and> action_rows \<noteq> [] \<and>
    core_command env what (hd action_rows) 0 (length action_rows) = Inr (cs, title, ex) \<and>
    \<not> html_confirm env title (length action_rows) \<longrightarrow>
      do_actions env what action_rows = ([], Inr False)) \<and>
   (user_may env ''general.act'' \<and> action_rows \<noteq> [] \<and>
    core_command env what (hd action_rows) 0 (length action_rows) = Inr (cs, title, ex) \<and>
    html_confirm env title (length action_rows) \<and>
    all_rows_plain env what (length action_rows) (zip [0..<length action_rows] action_rows) \<longrightarrow>
      snd (do_actions env what action_rows) = Inr True \<and>
      distinct (map call_pair (fst (do_actions env what action_rows))) \<and>
      set (map call_pair (fst (do_actions env what action_rows))) =
        set (produced_pairs env what (length action_rows)
               (zip [0..<length action_rows] action_rows)))"
proof -
  have 1: "do_actions env what action_rows = ([], Inr False)"
    if "\<not> user_may env ''general.act'' \<or> action_rows = []"
    using that by (auto simp: do_actions_def)
  have 2: "do_actions env what action_rows = ([], Inl e)"
    if "user_may env ''general.act''" "action_rows \<noteq> []"
      "core_command env what (hd action_rows) 0 (length action_rows) = Inl e"
    using that by (simp add: do_actions_def)
  have 3: "do_actions env what action_rows = ([], Inr False)"
    if "user_may env ''general.act''" "action_rows \<noteq> []"
      "core_command env what (hd action_rows) 0 (length action_rows) = Inr (cs, title, ex)"
      "\<not> html_confirm env title (length action_rows)"
    using that by (simp add: do_actions_def)
  have 4: "snd (do_actions env what action_rows) = Inr True \<and>
      distinct (map call_pair (fst (do_actions env what action_rows))) \<and>
      set (map call_pair (fst (do_actions env what action_rows))) =
        set (produced_pairs env what (length action_rows)
               (zip [0..<length action_rows] action_rows))"
    if a: "user_may env ''general.act''" "action_rows \<noteq> []"
      "core_command env what (hd action_rows) 0 (length action_rows) = Inr (cs, title, ex)"
      "html_confirm env title (length action_rows)"
      and p: "all_rows_plain env what (length action_rows)
            (zip [0..<length action_rows] action_rows)"
  proof -
    let ?st0 = "\<lparr>calls = [], already_executed = {}\<rparr>"
    have i1: "already_executed ?st0 = set (map call_pair (calls ?st0))" by simp
    have i2: "distinct (map call_pair (calls ?st0))" by simp
    from execute_rows_plain [OF p i1 i2] obtain st' where
      s: "execute_rows env what (length action_rows)
            (zip [0..<length action_rows] action_rows) ?st0 = (st', None)"
      "already_executed st' = set (map call_pair (calls st'))"
      "distinct (map call_pair (calls st'))"
      "already_executed st' = already_executed ?st0 \<union>
         set (produced_pairs env what (length action_rows)
               (zip [0..<length action_rows] action_rows))"
      by blast
    have d: "do_actions env what action_rows = (calls st', Inr True)"
      using a s(1) by (simp add: do_actions_def)
    show ?thesis
      unfolding d using s(2,3,4) by simp
  qed
  show ?thesis
  proof (intro conjI)
    show "\<not> user_may env ''general.act'' \<or> action_rows = [] \<longrightarrow>
        do_actions env what action_rows = ([], Inr False)"
      by (intro impI) (rule 1)
    show "user_may env ''general.act'' \<and> action_rows \<noteq> [] \<and>
        core_command env what (hd action_rows) 0 (length action_rows) = Inl e \<longrightarrow>
        do_actions env what action_rows = ([], Inl e)"
      by (intro impI, elim conjE) (rule 2)
    show "user_may env ''general.act'' \<and> action_rows \<noteq> [] \<and>
        core_command env what (hd action_rows) 0 (length action_rows) = Inr (cs, title, ex) \<and>
        \<not> html_confirm env title (length action_rows) \<longrightarrow>
        do_actions env what action_rows = ([], Inr False)"
      by (intro impI, elim conjE) (rule 3)
    show "user_may env ''general.act'' \<and> action_rows \<noteq> [] \<and>
        core_command env what (hd action_rows) 0 (length action_rows) = Inr (cs, title, ex) \<and>
        html_confirm env title (length action_rows) \<and>
        all_rows_plain env what (length action_rows)
          (zip [0..<length action_rows] action_rows) \<longrightarrow>
        snd (do_actions env what action_rows) = Inr True \<and>
        distinct (map call_pair (fst (do_actions env what action_rows))) \<and>
        set (map call_pair (fst (do_actions env what action_rows))) =
          set (produced_pairs env what (length action_rows)
                 (zip [0..<length action_rows] action_rows))"
      by (intro impI, elim conjE) (rule 4)
  qed
qed



text \<open>
  With the permission, two selected rows and the confirmation given, \<open>do_actions\<close> does not
  return \<open>True\<close> when \<open>core_command\<close> finds no command for the second row: the command of the
  first row has been executed and \<open>MKUserError\<close> is raised.
\<close>

theorem do_actions_raises_counterexample:
  "user_may (example_actions_env example_service_command) ''general.act'' \<and>
   [service_comment_row ''1'', host_comment_row ''2''] \<noteq> [] \<and>
   html_confirm (example_actions_env example_service_command) (Some ''remove'') 2 \<and>
   do_actions (example_actions_env example_service_command) ''comment''
       [service_comment_row ''1'', host_comment_row ''2''] =
     ([(''command_executor_livestatus'', ''REMOVE_SVC_COMMENT;1'', PStr ''s1'')],
      Inl (MKUserError None ''Sorry. This command is not implemented.''))"
  by (simp add: do_actions_def actions_example_defs Let_def)

text \<open>
  A command that names its site is entered into \<open>already_executed\<close> under that site but
  looked up under the site of the row. For two BI rows, which have no site, the same
  command is sent twice.
\<close>

lemma do_actions_site_entry_repeated:
  "do_actions (example_actions_env example_bi_command) ''aggr''
       [[(''aggr_name'', PStr ''a1'')], [(''aggr_name'', PStr ''a2'')]] =
     ([(''command_executor_livestatus'', ''ACKNOWLEDGE_HOST_PROBLEM;h1'', PStr ''s1''),
       (''command_executor_livestatus'', ''ACKNOWLEDGE_HOST_PROBLEM;h1'', PStr ''s1'')],
      Inr True)"
  by (simp add: do_actions_def actions_example_defs Let_def)


theorem do_actions_spec_witness:
  "user_may (example_actions_env example_service_command) ''general.act'' \<and>
   [service_comment_row ''1'', service_comment_row ''2'', service_comment_row ''1''] \<noteq> [] \<and>
   html_confirm (example_actions_env example_service_command) (Some ''remove'') 3 \<and>
   all_rows_plain (example_actions_env example_service_command) ''comment'' 3
     (zip [0..<3] [service_comment_row ''1'', service_comment_row ''2'', service_comment_row ''1'']) \<and>
   do_actions (example_actions_env example_service_command) ''comment''
       [service_comment_row ''1'', service_comment_row ''2'', service_comment_row ''1''] =
     ([(''command_executor_livestatus'', ''REMOVE_SVC_COMMENT;1'', PStr ''s1''),
       (''command_executor_livestatus'', ''REMOVE_SVC_COMMENT;2'', PStr ''s1'')],
      Inr True) \<and>
   distinct (map call_pair (fst (do_actions (example_actions_env example_service_command) ''comment''
       [service_comment_row ''1'', service_comment_row ''2'', service_comment_row ''1''])))"
proof -
  let ?env = "example_actions_env example_service_command"
  let ?rows = "[service_comment_row ''1'', service_comment_row ''2'', service_comment_row ''1'']"
  have len: "length ?rows = 3" by simp
  have upt: "[0..<3] = [0, 1, 2]" by (simp add: upt_rec)
  have h1: "user_may ?env ''general.act''" by (simp add: actions_example_defs)
  have h2: "?rows \<noteq> []" by simp
  have h3: "core_command ?env ''comment'' (hd ?rows) 0 (length ?rows) =
      Inr ([Plain ''REMOVE_SVC_COMMENT;1''], Some ''remove'', ''command_executor_livestatus'')"
    by (simp add: actions_example_defs)
  have h4: "html_confirm ?env (Some ''remove'') (length ?rows)" by (simp add: actions_example_defs)
  have h5: "all_rows_plain ?env ''comment'' (length ?rows) (zip [0..<length ?rows] ?rows)"
    unfolding len upt by (simp add: actions_example_defs is_plain_def)
  have d: "do_actions ?env ''comment'' ?rows =
     ([(''command_executor_livestatus'', ''REMOVE_SVC_COMMENT;1'', PStr ''s1''),
       (''command_executor_livestatus'', ''REMOVE_SVC_COMMENT;2'', PStr ''s1'')],
      Inr True)"
    unfolding do_actions_def len upt by (simp add: actions_example_defs Let_def)
  have "distinct (map call_pair (fst (do_actions ?env ''comment'' ?rows)))"
    using do_actions_spec [of ?env ?rows "''comment''" KeyError
        "[Plain ''REMOVE_SVC_COMMENT;1'']" "Some ''remove''" "''command_executor_livestatus''"]
      h1 h2 h3 h4 h5 by blast
  then show ?thesis
    using h1 h2 h4 h5 d unfolding len upt by simp
qed

subsection \<open>Sorting rows\<close>

lemma join_get_has_join:
  "has_join e \<Longrightarrow> join_get e key = Inr (joined_row e key)"
  by (auto simp: has_join_def join_get_def joined_row_def split: option.splits pyval.splits)

lemma entry_compare_result:
  assumes "is_join_entry entry \<longrightarrow> has_join e1 \<and> has_join e2"
  shows "entry_compare entry e1 e2 = Inr (entry_result entry e1 e2)"
proof (cases "is_join_entry entry")
  case True
  with assms have "has_join e1" "has_join e2" by simp_all
  then show ?thesis
    using True by (simp add: entry_compare_def entry_result_def join_get_has_join Let_def)
next
  case False
  then show ?thesis
    by (simp add: entry_compare_def entry_result_def Let_def)
qed

lemma lex_compare_Nil: "lex_compare [] e1 e2 = 0"
  by (simp add: lex_compare_def first_nonzero_def)

lemma lex_compare_Cons:
  "lex_compare (entry # sorters) e1 e2 =
     (if entry_result entry e1 e2 \<noteq> 0 then entry_result entry e1 e2
      else lex_compare sorters e1 e2)"
  by (simp add: lex_compare_def first_nonzero_def)

lemma multisort_lex:
  assumes "list_ex is_join_entry sorters \<longrightarrow> has_join e1 \<and> has_join e2"
  shows "multisort sorters e1 e2 = Inr (lex_compare sorters e1 e2)"
  using assms
proof (induction sorters)
  case Nil
  then show ?case by (simp add: lex_compare_Nil)
next
  case (Cons entry sorters)
  have 1: "entry_compare entry e1 e2 = Inr (entry_result entry e1 e2)"
    using Cons.prems by (intro entry_compare_result) simp
  have 2: "multisort sorters e1 e2 = Inr (lex_compare sorters e1 e2)"
    using Cons.prems by (intro Cons.IH) simp
  show ?case
    by (simp add: 1 2 lex_compare_Cons)
qed

lemma set_insort_int: "set (insort_int g x ys) = insert x (set ys)"
  by (induction ys) auto

lemma set_sort_int: "set (sort_int g xs) = set xs"
  by (induction xs) (simp_all add: set_insort_int)

lemma mset_insort_int: "mset (insort_int g x ys) = add_mset x (mset ys)"
  by (induction ys) auto

lemma mset_sort_int: "mset (sort_int g xs) = mset xs"
  by (induction xs) (simp_all add: mset_insort_int)

lemma insort_cmp_int:
  "\<forall>y \<in> set ys. f y x = Inr (g y x) \<Longrightarrow> insort_cmp f x ys = Inr (insort_int g x ys)"
  by (induction ys) auto

lemma sort_cmp_int:
  "\<forall>a \<in> set xs. \<forall>b \<in> set xs. f a b = Inr (g a b) \<Longrightarrow> sort_cmp f xs = Inr (sort_int g xs)"
proof (induction xs)
  case Nil
  then show ?case by simp
next
  case (Cons x xs)
  then have ih: "sort_cmp f xs = Inr (sort_int g xs)" by simp
  have "\<forall>y \<in> set (sort_int g xs). f y x = Inr (g y x)"
    using Cons.prems by (simp add: set_sort_int)
  then show ?case
    by (simp add: ih insort_cmp_int)
qed

lemma sorted_insort_int:
  assumes "consistent_on g zs" and "x \<in> set zs" and "set ys \<subseteq> set zs"
    and "sorted_wrt (\<lambda>a b. g a b \<le> 0) ys"
  shows "sorted_wrt (\<lambda>a b. g a b \<le> 0) (insort_int g x ys)"
  using assms(3,4)
proof (induction ys)
  case Nil
  then show ?case by simp
next
  case (Cons y ys)
  have sym: "\<And>a b. a \<in> set zs \<Longrightarrow> b \<in> set zs \<Longrightarrow> (g a b < 0) = (0 < g b a)"
    and tr: "\<And>a b c. a \<in> set zs \<Longrightarrow> b \<in> set zs \<Longrightarrow> c \<in> set zs \<Longrightarrow>
         g a b \<le> 0 \<Longrightarrow> g b c \<le> 0 \<Longrightarrow> g a c \<le> 0"
    using assms(1) unfolding consistent_on_def by blast+
  have y: "y \<in> set zs" and ys: "set ys \<subseteq> set zs" using Cons.prems(1) by simp_all
  have sy: "\<forall>b \<in> set ys. g y b \<le> 0" and sys: "sorted_wrt (\<lambda>a b. g a b \<le> 0) ys"
    using Cons.prems(2) by simp_all
  show ?case
  proof (cases "g y x < 0")
    case True
    have "sorted_wrt (\<lambda>a b. g a b \<le> 0) (insort_int g x ys)"
      using Cons.IH [OF ys sys] .
    moreover have "\<forall>b \<in> set (insort_int g x ys). g y b \<le> 0"
      using sy True by (auto simp: set_insort_int)
    ultimately show ?thesis using True by simp
  next
    case False
    then have xy: "g x y \<le> 0"
      using sym [OF assms(2) y] sym [OF y assms(2)] by linarith
    have "\<forall>b \<in> set ys. g x b \<le> 0"
    proof
      fix b assume b: "b \<in> set ys"
      then have "b \<in> set zs" using ys by blast
      from tr [OF assms(2) y this xy] sy b show "g x b \<le> 0" by blast
    qed
    then show ?thesis using False xy Cons.prems(2) by simp
  qed
qed

lemma sorted_sort_int:
  assumes "consistent_on g zs" and "set xs \<subseteq> set zs"
  shows "sorted_wrt (\<lambda>a b. g a b \<le> 0) (sort_int g xs)"
  using assms(2)
proof (induction xs)
  case Nil
  then show ?case by simp
next
  case (Cons x xs)
  then have "x \<in> set zs" "set (sort_int g xs) \<subseteq> set zs"
    by (simp_all add: set_sort_int)
  from sorted_insort_int [OF assms(1) this] Cons show ?case by simp
qed

lemma filter_insort_int:
  assumes "consistent_on g zs" and "k \<in> set zs" and "x \<in> set zs" and "set ys \<subseteq> set zs"
  shows "filter (\<lambda>b. g k b = 0) (insort_int g x ys) = filter (\<lambda>b. g k b = 0) (x # ys)"
  using assms(4)
proof (induction ys)
  case Nil
  then show ?case by simp
next
  case (Cons y ys)
  have sym: "\<And>a b. a \<in> set zs \<Longrightarrow> b \<in> set zs \<Longrightarrow> (g a b < 0) = (0 < g b a)"
    and tr: "\<And>a b c. a \<in> set zs \<Longrightarrow> b \<in> set zs \<Longrightarrow> c \<in> set zs \<Longrightarrow>
         g a b \<le> 0 \<Longrightarrow> g b c \<le> 0 \<Longrightarrow> g a c \<le> 0"
    using assms(1) unfolding consistent_on_def by blast+
  have y: "y \<in> set zs" and ys: "set ys \<subseteq> set zs" using Cons.prems(1) by simp_all
  show ?case
  proof (cases "g y x < 0")
    case False
    then show ?thesis by simp
  next
    case True
    have ih: "filter (\<lambda>b. g k b = 0) (insort_int g x ys) = filter (\<lambda>b. g k b = 0) (x # ys)"
      using Cons.IH [OF ys] .
    have "\<not> (g k x = 0 \<and> g k y = 0)"
    proof
      assume a: "g k x = 0 \<and> g k y = 0"
      have xk: "g x k = 0"
        using a sym [OF assms(2) assms(3)] sym [OF assms(3) assms(2)] by linarith
      have "g x y \<le> 0"
        using tr [OF assms(3) assms(2) y] xk a by simp
      then show False
        using True sym [OF y assms(3)] by linarith
    qed
    then show ?thesis
      using True ih by auto
  qed
qed

lemma filter_sort_int:
  assumes "consistent_on g zs" and "k \<in> set zs" and "set xs \<subseteq> set zs"
  shows "filter (\<lambda>b. g k b = 0) (sort_int g xs) = filter (\<lambda>b. g k b = 0) xs"
  using assms(3)
proof (induction xs)
  case Nil
  then show ?case by simp
next
  case (Cons x xs)
  then have x: "x \<in> set zs" and s: "set (sort_int g xs) \<subseteq> set zs" and xs: "set xs \<subseteq> set zs"
    by (simp_all add: set_sort_int)
  show ?case
    using filter_insort_int [OF assms(1,2) x s] Cons.IH [OF xs] by simp
qed


lemmas sort_example_defs = example_sorters_def example_data_def example_host_row_def
  example_unjoined_data_def cmp_num_column_def



text \<open>
  C1, as amended. With an empty sorter list the rows are left unchanged. When the rows
  carry their "JOIN" dictionary if a sorter has a join key, comparing two rows gives the
  first result that is not zero among the results of the entries in list order, each
  negated when the negate flag is set, and zero when there is none. When this comparison
  is consistent on the rows, \<open>_sort_data\<close> with a non-empty sorter list returns a permutation
  of the rows that is ordered by it, and rows that compare equal keep their relative order.
\<close>

theorem sort_data_spec:
  assumes "\<not> list_ex is_join_entry sorters \<or> list_all has_join data"
    and "consistent_on (lex_compare sorters) data"
  shows "sort_data [] data = Inr data \<and>
         (\<forall>e1 \<in> set data. \<forall>e2 \<in> set data.
            multisort sorters e1 e2 = Inr (lex_compare sorters e1 e2)) \<and>
         (sorters \<noteq> [] \<longrightarrow>
            (\<exists>sorted_rows. sort_data sorters data = Inr sorted_rows \<and>
               mset sorted_rows = mset data \<and>
               sorted_wrt (\<lambda>a b. lex_compare sorters a b \<le> 0) sorted_rows \<and>
               (\<forall>k \<in> set data.
                  filter (\<lambda>b. lex_compare sorters k b = 0) sorted_rows =
                  filter (\<lambda>b. lex_compare sorters k b = 0) data)))"
proof -
  let ?g = "lex_compare sorters"
  have m: "multisort sorters e1 e2 = Inr (?g e1 e2)" if "e1 \<in> set data" "e2 \<in> set data" for e1 e2
  proof (rule multisort_lex, rule impI)
    assume "list_ex is_join_entry sorters"
    with assms(1) have "list_all has_join data" by simp
    with that show "has_join e1 \<and> has_join e2" by (simp add: list_all_iff)
  qed
  then have s: "sort_cmp (multisort sorters) data = Inr (sort_int ?g data)"
    by (intro sort_cmp_int) simp
  have 1: "sort_data [] data = Inr data"
    by (simp add: sort_data_def)
  have 3: "\<exists>sorted_rows. sort_data sorters data = Inr sorted_rows \<and>
               mset sorted_rows = mset data \<and>
               sorted_wrt (\<lambda>a b. ?g a b \<le> 0) sorted_rows \<and>
               (\<forall>k \<in> set data.
                  filter (\<lambda>b. ?g k b = 0) sorted_rows = filter (\<lambda>b. ?g k b = 0) data)"
    if "sorters \<noteq> []"
  proof (intro exI [of _ "sort_int ?g data"] conjI ballI)
    show "sort_data sorters data = Inr (sort_int ?g data)"
      using that s by (simp add: sort_data_def)
    show "mset (sort_int ?g data) = mset data"
      by (rule mset_sort_int)
    show "sorted_wrt (\<lambda>a b. ?g a b \<le> 0) (sort_int ?g data)"
      using sorted_sort_int [OF assms(2)] by simp
    show "filter (\<lambda>b. ?g k b = 0) (sort_int ?g data) = filter (\<lambda>b. ?g k b = 0) data"
      if "k \<in> set data" for k
      using filter_sort_int [OF assms(2) that] by simp
  qed
  show ?thesis
    using 1 m 3 by (intro conjI ballI impI)
qed

lemma example_consistent: "consistent_on (lex_compare example_sorters) example_data"
  unfolding consistent_on_def
  by (simp add: sort_example_defs lex_compare_def first_nonzero_def entry_result_def
      is_join_entry_def entry_join_key_def joined_row_def join_get_def safe_compare_def)

theorem sort_data_spec_witness:
  "list_all has_join example_data \<and>
   consistent_on (lex_compare example_sorters) example_data \<and>
   example_sorters \<noteq> [] \<and>
   sort_data example_sorters example_data =
     Inr [example_host_row ''b'' 1 [],
          example_host_row ''c'' 0 [],
          example_host_row ''d'' 0 [],
          example_host_row ''a'' 0 [(''CPU'', PDict [(''svc'', PInt 2)])]] \<and>
   (\<exists>sorted_rows. sort_data example_sorters example_data = Inr sorted_rows \<and>
      mset sorted_rows = mset example_data \<and>
      sorted_wrt (\<lambda>a b. lex_compare example_sorters a b \<le> 0) sorted_rows)"
proof -
  have h1: "list_all has_join example_data"
    by (simp add: sort_example_defs has_join_def)
  then have h1': "\<not> list_ex is_join_entry example_sorters \<or> list_all has_join example_data"
    by simp
  have h3: "example_sorters \<noteq> []"
    by (simp add: example_sorters_def)
  have e: "sort_data example_sorters example_data =
     Inr [example_host_row ''b'' 1 [],
          example_host_row ''c'' 0 [],
          example_host_row ''d'' 0 [],
          example_host_row ''a'' 0 [(''CPU'', PDict [(''svc'', PInt 2)])]]"
    by (simp add: sort_data_def sort_example_defs entry_compare_def
      is_join_entry_def entry_join_key_def join_get_def safe_compare_def Let_def)
  have "\<exists>sorted_rows. sort_data example_sorters example_data = Inr sorted_rows \<and>
      mset sorted_rows = mset example_data \<and>
      sorted_wrt (\<lambda>a b. lex_compare example_sorters a b \<le> 0) sorted_rows"
    using sort_data_spec [OF h1' example_consistent] h3 by blast
  with h1 example_consistent h3 e show ?thesis by blast
qed

text \<open>
  Rows without a "JOIN" column and a sorter with a join key: \<open>_sort_data\<close> raises \<open>KeyError\<close>
  instead of ordering the rows.
\<close>

theorem sort_data_unjoined_counterexample:
  "[\<lparr>sorter_cmp = cmp_num_column ''svc'', negate = False, join_key = Some ''CPU''\<rparr>] \<noteq> [] \<and>
   sort_data [\<lparr>sorter_cmp = cmp_num_column ''svc'', negate = False, join_key = Some ''CPU''\<rparr>]
     example_unjoined_data = Inl KeyError"
  by (simp add: sort_data_def sort_example_defs entry_compare_def
      is_join_entry_def entry_join_key_def join_get_def Let_def)

subsection \<open>Joining a second table\<close>

lemma dict_item_ok: "map_of d k = Some v \<Longrightarrow> dict_item d k = Inr v"
  by (simp add: dict_item_def)

lemma join_row_step_ok:
  assumes "slave_row_ok jmc jsc r"
  shows "\<exists>st'. join_row_step jmc jsc r st = Inr st' \<and>
           current_key st' = Some (master_key_of jmc r) \<and>
           map_of (per_master_entry st') =
             (map_of (per_master_entry st))
               (master_key_of jmc r \<mapsto>
                  dict_set (slave_key_of jsc r) (PDict r)
                    (if current_key st = Some (master_key_of jmc r)
                     then current_entry st (master_key_of jmc r) else []))"
proof -
  from assms obtain site mv k where
    c: "map_of r ''site'' = Some site" "map_of r jmc = Some mv" "map_of r jsc = Some (PStr k)"
    by (auto simp: slave_row_ok_def master_row_ok_def split: option.splits pyval.splits)
  have K: "master_key_of jmc r = (site, mv)"
    by (simp add: master_key_of_def row_get_def c)
  have k: "slave_key_of jsc r = k"
    by (simp add: slave_key_of_def c)
  show ?thesis
  proof (cases "current_key st = Some (site, mv)")
    case True
    then show ?thesis
      unfolding K k
      by (simp add: join_row_step_def dict_item_ok [OF c(1)] dict_item_ok [OF c(2)]
          dict_item_ok [OF c(3)] Let_def map_of_dict_set)
  next
    case False
    then have ne: "Some (site, mv) \<noteq> current_key st" by auto
    show ?thesis
      unfolding K k using False ne
      by (simp add: join_row_step_def dict_item_ok [OF c(1)] dict_item_ok [OF c(2)]
          dict_item_ok [OF c(3)] Let_def map_of_dict_set current_entry_def)
  qed
qed

lemma join_rows_loop_snoc:
  "join_rows_loop jmc jsc (rs @ [r]) st =
     (case join_rows_loop jmc jsc rs st of
        Inl e \<Rightarrow> Inl e
      | Inr st' \<Rightarrow> join_row_step jmc jsc r st')"
proof (induction rs arbitrary: st)
  case Nil
  show ?case by (cases "join_row_step jmc jsc r st") simp_all
next
  case (Cons a rs)
  show ?case by (cases "join_row_step jmc jsc a st") (simp_all add: Cons.IH)
qed

lemma grouped_snoc:
  "grouped (ks @ [k]) \<longleftrightarrow> grouped ks \<and> (ks = [] \<or> last ks = k \<or> k \<notin> set ks)"
proof (cases ks rule: rev_cases)
  case Nil
  then show ?thesis by (simp add: grouped_def)
next
  case (snoc ys y)
  then show ?thesis by (auto simp: grouped_def)
qed

lemma join_rows_loop_inv:
  assumes "list_all (slave_row_ok jmc jsc) rs" and "grouped (map (master_key_of jmc) rs)"
  shows "\<exists>st. join_rows_loop jmc jsc rs \<lparr>per_master_entry = [], current_key = None\<rparr> = Inr st \<and>
           current_key st = (if rs = [] then None else Some (master_key_of jmc (last rs))) \<and>
           (\<forall>key. key \<notin> master_key_of jmc ` set rs \<longrightarrow> map_of (per_master_entry st) key = None) \<and>
           (\<forall>key. key \<in> master_key_of jmc ` set rs \<longrightarrow>
              (\<exists>d. map_of (per_master_entry st) key = Some d \<and>
                 map_of d = map_of (rev (map (\<lambda>r. (slave_key_of jsc r, PDict r))
                                     (filter (\<lambda>r. master_key_of jmc r = key) rs)))))"
  using assms
proof (induction rs rule: rev_induct)
  case Nil
  then show ?case by simp
next
  case (snoc r rs)
  let ?K = "master_key_of jmc"
  let ?k = "slave_key_of jsc"
  let ?M = "\<lambda>key rs. map_of (rev (map (\<lambda>r. (?k r, PDict r)) (filter (\<lambda>r. ?K r = key) rs)))"
  have ok: "slave_row_ok jmc jsc r" and oks: "list_all (slave_row_ok jmc jsc) rs"
    using snoc.prems(1) by simp_all
  have g: "grouped (map ?K rs)" and g2: "rs = [] \<or> ?K (last rs) = ?K r \<or> ?K r \<notin> ?K ` set rs"
    using snoc.prems(2) by (auto simp: grouped_snoc last_map)
  from snoc.IH [OF oks g] obtain st where
    l: "join_rows_loop jmc jsc rs \<lparr>per_master_entry = [], current_key = None\<rparr> = Inr st"
    and ck: "current_key st = (if rs = [] then None else Some (?K (last rs)))"
    and none: "\<And>key. key \<notin> ?K ` set rs \<Longrightarrow> map_of (per_master_entry st) key = None"
    and some: "\<And>key. key \<in> ?K ` set rs \<Longrightarrow>
        \<exists>d. map_of (per_master_entry st) key = Some d \<and> map_of d = ?M key rs"
    by blast
  from join_row_step_ok [OF ok, of st] obtain st' where
    s: "join_row_step jmc jsc r st = Inr st'"
    and ck': "current_key st' = Some (?K r)"
    and pm: "map_of (per_master_entry st') =
             (map_of (per_master_entry st))
               (?K r \<mapsto> dict_set (?k r) (PDict r)
                    (if current_key st = Some (?K r) then current_entry st (?K r) else []))"
    by blast
  have l': "join_rows_loop jmc jsc (rs @ [r]) \<lparr>per_master_entry = [], current_key = None\<rparr> = Inr st'"
    by (simp add: join_rows_loop_snoc l s)
  have new: "map_of (dict_set (?k r) (PDict r)
                    (if current_key st = Some (?K r) then current_entry st (?K r) else [])) =
             ?M (?K r) (rs @ [r])"
  proof (cases "current_key st = Some (?K r)")
    case True
    then have "rs \<noteq> []" and "?K (last rs) = ?K r"
      using ck by (auto split: if_splits)
    then have "?K r \<in> ?K ` set rs"
      by (metis image_eqI last_in_set)
    from some [OF this] obtain d where
      d: "map_of (per_master_entry st) (?K r) = Some d" "map_of d = ?M (?K r) rs"
      by blast
    have "current_entry st (?K r) = d"
      by (simp add: current_entry_def d(1))
    then show ?thesis
      using True d(2) by (simp add: map_of_dict_set fun_eq_iff)
  next
    case False
    then have "rs = [] \<or> ?K (last rs) \<noteq> ?K r"
      using ck by (auto split: if_splits)
    then have "?K r \<notin> ?K ` set rs"
      using g2 by auto
    then have "\<forall>x \<in> set rs. ?K x \<noteq> ?K r"
      by (metis image_eqI)
    then have "filter (\<lambda>x. ?K x = ?K r) rs = []"
      by (simp add: filter_empty_conv)
    then show ?thesis
      using False by (simp add: fun_eq_iff)
  qed
  have A: "current_key st' = (if rs @ [r] = [] then None else Some (?K (last (rs @ [r]))))"
    using ck' by simp
  have B: "map_of (per_master_entry st') key = None" if "key \<notin> ?K ` set (rs @ [r])" for key
    using that none [of key] by (simp add: pm)
  have C: "\<exists>d. map_of (per_master_entry st') key = Some d \<and> map_of d = ?M key (rs @ [r])"
    if "key \<in> ?K ` set (rs @ [r])" for key
  proof (cases "key = ?K r")
    case True
    then show ?thesis using new by (simp add: pm)
  next
    case False
    then have "key \<in> ?K ` set rs" using that by auto
    from some [OF this] obtain d where
      "map_of (per_master_entry st) key = Some d" "map_of d = ?M key rs"
      by blast
    then show ?thesis using False by (simp add: pm)
  qed
  show ?case
    using l' A B C by blast
qed

lemma add_join_info_ok:
  "list_all (master_row_ok jmc) ms \<Longrightarrow>
     add_join_info jmc entries ms =
       Inr (map (\<lambda>m. dict_set ''JOIN''
                   (PDict (case map_of entries (master_key_of jmc m) of None \<Rightarrow> [] | Some d \<Rightarrow> d)) m) ms)"
proof (induction ms)
  case Nil
  then show ?case by simp
next
  case (Cons m ms)
  then have "master_row_ok jmc m" and ih: "add_join_info jmc entries ms =
       Inr (map (\<lambda>m. dict_set ''JOIN''
                   (PDict (case map_of entries (master_key_of jmc m) of None \<Rightarrow> [] | Some d \<Rightarrow> d)) m) ms)"
    by simp_all
  then obtain site mv where c: "map_of m ''site'' = Some site" "map_of m jmc = Some mv"
    by (auto simp: master_row_ok_def)
  have K: "master_key_of jmc m = (site, mv)"
    by (simp add: master_key_of_def row_get_def c)
  show ?case
    by (simp add: dict_item_ok [OF c(1)] dict_item_ok [OF c(2)] ih K Let_def)
qed


lemma distinct_slave_keys:
  "distinct (map (\<lambda>r. (K r, k r)) rows) \<Longrightarrow> distinct (map k (filter (\<lambda>r. K r = key) rows))"
proof (induction rows)
  case Nil
  then show ?case by simp
next
  case (Cons a rows)
  then have ih: "distinct (map k (filter (\<lambda>r. K r = key) rows))"
    and a: "(K a, k a) \<notin> (\<lambda>r. (K r, k r)) ` set rows"
    by simp_all
  show ?case
  proof (cases "K a = key")
    case False
    then show ?thesis using ih by simp
  next
    case True
    have "k a \<notin> k ` {x \<in> set rows. K x = key}"
    proof
      assume "k a \<in> k ` {x \<in> set rows. K x = key}"
      then obtain x where "x \<in> set rows" "K x = key" "k a = k x" by auto
      then have "(K a, k a) = (K x, k x)" using True by simp
      with \<open>x \<in> set rows\<close> a show False by (metis (no_types, lifting) image_eqI)
    qed
    then show ?thesis using True ih by simp
  qed
qed

lemma map_of_rev_distinct:
  assumes "distinct (map fst xs)"
  shows "map_of (rev xs) = map_of xs"
proof -
  have "distinct (map fst (rev xs))"
    using assms by (simp add: rev_map [symmetric])
  then show ?thesis
    using assms map_of_inject_set [of "rev xs" xs] by simp
qed

lemma joined_rows_lookup:
  assumes "distinct (map (\<lambda>r. (K r, k r)) rows)"
  shows "map_of (rev (map (\<lambda>r. (k r, f r)) (filter (\<lambda>r. K r = key) rows))) x = Some v \<longleftrightarrow>
         (\<exists>r \<in> set rows. K r = key \<and> k r = x \<and> v = f r)"
proof -
  let ?xs = "map (\<lambda>r. (k r, f r)) (filter (\<lambda>r. K r = key) rows)"
  have d: "distinct (map fst ?xs)"
    using distinct_slave_keys [OF assms, of key] by (simp add: comp_def)
  have "map_of (rev ?xs) x = Some v \<longleftrightarrow> (x, v) \<in> set ?xs"
    using d by (simp add: map_of_rev_distinct)
  also have "\<dots> \<longleftrightarrow> (\<exists>r \<in> set rows. K r = key \<and> k r = x \<and> v = f r)"
    by auto
  finally show ?thesis .
qed

text \<open>
  C2, as amended. Let the rows of the join query have the columns "site", the master
  column and a string join key, let the master rows have "site" and the master column,
  let the rows of the join query with the same site and master column value be adjacent,
  and let no two of them have the same join key. Then \<open>_do_table_join\<close> returns, and every
  master row has got a "JOIN" entry that maps a key to a row exactly when that row was
  returned by the join query with the site and master column value of the master row and
  with that join key. A master row without such rows gets the empty dictionary.
\<close>

theorem do_table_join_grouped:
  assumes "list_all (slave_row_ok jmc jsc) rows"
    and "list_all (master_row_ok jmc) master_rows"
    and "grouped (map (master_key_of jmc) rows)"
    and "distinct (map (\<lambda>r. (master_key_of jmc r, slave_key_of jsc r)) rows)"
  shows "\<exists>result. do_table_join jmc jsc rows master_rows = Inr result \<and>
           length result = length master_rows \<and>
           (\<forall>i < length master_rows.
              \<exists>joininfo. result ! i = dict_set ''JOIN'' (PDict joininfo) (master_rows ! i) \<and>
                join_info (result ! i) = Some joininfo \<and>
                (\<forall>key v. map_of joininfo key = Some v \<longleftrightarrow>
                   (\<exists>r \<in> set rows.
                      master_key_of jmc r = master_key_of jmc (master_rows ! i) \<and>
                      slave_key_of jsc r = key \<and> v = PDict r)) \<and>
                ((\<forall>r \<in> set rows.
                    master_key_of jmc r \<noteq> master_key_of jmc (master_rows ! i)) \<longrightarrow>
                 joininfo = []))"
proof -
  let ?K = "master_key_of jmc"
  let ?k = "slave_key_of jsc"
  from join_rows_loop_inv [OF assms(1,3)] obtain st where
    l: "join_rows_loop jmc jsc rows \<lparr>per_master_entry = [], current_key = None\<rparr> = Inr st"
    and none: "\<And>key. key \<notin> ?K ` set rows \<Longrightarrow> map_of (per_master_entry st) key = None"
    and some: "\<And>key. key \<in> ?K ` set rows \<Longrightarrow>
        \<exists>d. map_of (per_master_entry st) key = Some d \<and>
          map_of d = map_of (rev (map (\<lambda>r. (?k r, PDict r)) (filter (\<lambda>r. ?K r = key) rows)))"
    by blast
  let ?J = "\<lambda>m. case map_of (per_master_entry st) (?K m) of None \<Rightarrow> [] | Some d \<Rightarrow> d"
  let ?result = "map (\<lambda>m. dict_set ''JOIN'' (PDict (?J m)) m) master_rows"
  have r: "do_table_join jmc jsc rows master_rows = Inr ?result"
    by (simp add: do_table_join_def l add_join_info_ok [OF assms(2)])
  have row: "\<exists>joininfo. ?result ! i = dict_set ''JOIN'' (PDict joininfo) (master_rows ! i) \<and>
                join_info (?result ! i) = Some joininfo \<and>
                (\<forall>key v. map_of joininfo key = Some v \<longleftrightarrow>
                   (\<exists>r \<in> set rows. ?K r = ?K (master_rows ! i) \<and> ?k r = key \<and> v = PDict r)) \<and>
                ((\<forall>r \<in> set rows. ?K r \<noteq> ?K (master_rows ! i)) \<longrightarrow> joininfo = [])"
    if i: "i < length master_rows" for i
  proof -
    let ?m = "master_rows ! i"
    have 1: "?result ! i = dict_set ''JOIN'' (PDict (?J ?m)) ?m"
      using i by simp
    have 2: "join_info (?result ! i) = Some (?J ?m)"
      unfolding 1 by (simp add: join_info_def map_of_dict_set)
    have 3: "map_of (?J ?m) key = Some v \<longleftrightarrow>
        (\<exists>r \<in> set rows. ?K r = ?K ?m \<and> ?k r = key \<and> v = PDict r)" for key v
    proof (cases "?K ?m \<in> ?K ` set rows")
      case True
      from some [OF this] obtain d where
        d: "map_of (per_master_entry st) (?K ?m) = Some d"
          "map_of d = map_of (rev (map (\<lambda>r. (?k r, PDict r)) (filter (\<lambda>r. ?K r = ?K ?m) rows)))"
        by blast
      have "?J ?m = d" by (simp add: d(1))
      then show ?thesis
        using joined_rows_lookup [OF assms(4), of PDict "?K ?m" key v] d(2) by simp
    next
      case False
      then have "?J ?m = []" by (simp add: none)
      moreover have "\<not> (\<exists>r \<in> set rows. ?K r = ?K ?m \<and> ?k r = key \<and> v = PDict r)"
        using False by (metis image_eqI)
      ultimately show ?thesis by simp
    qed
    have 4: "?J ?m = []" if "\<forall>r \<in> set rows. ?K r \<noteq> ?K ?m"
    proof -
      have "?K ?m \<notin> ?K ` set rows" using that by auto
      then show ?thesis by (simp add: none)
    qed
    show ?thesis
      using 1 2 3 4 by blast
  qed
  show ?thesis
    using r row by (intro exI [of _ ?result]) simp
qed


lemmas join_example_defs = example_service_row_def example_master_row_def

theorem do_table_join_grouped_witness:
  "list_all (slave_row_ok ''host_name'' ''service_description'')
     [example_service_row ''a'' ''CPU'', example_service_row ''a'' ''Disk'',
      example_service_row ''b'' ''CPU''] \<and>
   list_all (master_row_ok ''host_name'') [example_master_row ''a'', example_master_row ''c''] \<and>
   grouped (map (master_key_of ''host_name'')
     [example_service_row ''a'' ''CPU'', example_service_row ''a'' ''Disk'',
      example_service_row ''b'' ''CPU'']) \<and>
   distinct (map (\<lambda>r. (master_key_of ''host_name'' r, slave_key_of ''service_description'' r))
     [example_service_row ''a'' ''CPU'', example_service_row ''a'' ''Disk'',
      example_service_row ''b'' ''CPU'']) \<and>
   do_table_join ''host_name'' ''service_description''
     [example_service_row ''a'' ''CPU'', example_service_row ''a'' ''Disk'',
      example_service_row ''b'' ''CPU'']
     [example_master_row ''a'', example_master_row ''c''] =
     Inr [example_master_row ''a'' @
            [(''JOIN'', PDict [(''CPU'', PDict (example_service_row ''a'' ''CPU'')),
                               (''Disk'', PDict (example_service_row ''a'' ''Disk''))])],
          example_master_row ''c'' @ [(''JOIN'', PDict [])]] \<and>
   (\<exists>result. do_table_join ''host_name'' ''service_description''
       [example_service_row ''a'' ''CPU'', example_service_row ''a'' ''Disk'',
        example_service_row ''b'' ''CPU'']
       [example_master_row ''a'', example_master_row ''c''] = Inr result \<and>
      length result = length [example_master_row ''a'', example_master_row ''c''])"
proof -
  let ?rows = "[example_service_row ''a'' ''CPU'', example_service_row ''a'' ''Disk'',
      example_service_row ''b'' ''CPU'']"
  let ?ms = "[example_master_row ''a'', example_master_row ''c'']"
  have h1: "list_all (slave_row_ok ''host_name'' ''service_description'') ?rows"
    by (simp add: join_example_defs slave_row_ok_def master_row_ok_def)
  have h2: "list_all (master_row_ok ''host_name'') ?ms"
    by (simp add: join_example_defs master_row_ok_def)
  have h3: "grouped (map (master_key_of ''host_name'') ?rows)"
    by (simp add: join_example_defs grouped_def master_key_of_def row_get_def)
  have h4: "distinct (map (\<lambda>r. (master_key_of ''host_name'' r,
      slave_key_of ''service_description'' r)) ?rows)"
    by (simp add: join_example_defs master_key_of_def slave_key_of_def row_get_def)
  have e: "do_table_join ''host_name'' ''service_description'' ?rows ?ms =
     Inr [example_master_row ''a'' @
            [(''JOIN'', PDict [(''CPU'', PDict (example_service_row ''a'' ''CPU'')),
                               (''Disk'', PDict (example_service_row ''a'' ''Disk''))])],
          example_master_row ''c'' @ [(''JOIN'', PDict [])]]"
    by (simp add: do_table_join_def join_row_step_def dict_item_def current_entry_def
        join_example_defs Let_def)
  have "\<exists>result. do_table_join ''host_name'' ''service_description'' ?rows ?ms = Inr result \<and>
      length result = length ?ms"
    using do_table_join_grouped [OF h1 h2 h3 h4] by blast
  with h1 h2 h3 h4 e show ?thesis by blast
qed

text \<open>
  The join query returns a service of host a, a service of host b and another service of
  host a. The "JOIN" entry of the master row of host a holds the last service only.
\<close>

theorem do_table_join_interleaved_counterexample:
  "do_table_join ''host_name'' ''service_description''
     [example_service_row ''a'' ''CPU'', example_service_row ''b'' ''CPU'',
      example_service_row ''a'' ''Disk'']
     [example_master_row ''a''] =
     Inr [example_master_row ''a'' @
            [(''JOIN'', PDict [(''Disk'', PDict (example_service_row ''a'' ''Disk''))])]]"
  by (simp add: do_table_join_def join_row_step_def dict_item_def current_entry_def
      join_example_defs Let_def)

subsection \<open>The view pipeline\<close>







end
